theory Spec2Isabelle
  imports Main "HOL-Library.Word"
begin

section \<open>GuidFixer: the identifier scans of \<open>GuidFixer.cpp\<close>\<close>

subsection \<open>Data model\<close>

text \<open>
  Modelled from the spec: the engine type \<open>FGuid\<close> is not part of the repository. The
  spec's glossary describes an identifier as a 128-bit value that is invalid when it is
  zeroed, so \<open>FGuid\<close> is a 128-bit word and \<open>IsValid\<close> compares with zero.
\<close>

type_synonym FGuid = "128 word"

definition IsValid :: "FGuid \<Rightarrow> bool" where
  "IsValid g = (g \<noteq> 0)"

text \<open>
  What the scans read of a material or texture: its path name and its lighting GUID.
  Objects live in a store addressed by pointers, because the registry of a scan keeps
  pointers to objects that later iterations mutate.
\<close>

record UObject =
  PathName :: string
  LightingGuid :: FGuid

type_synonym ptr = nat

text \<open>
  Modelled from the spec: \<open>FString::StartsWith\<close> is engine code; the spec derives the
  ownership class from the prefix of the path. How the engine compares characters is
  not modelled; the proofs below use the prefix test only on the example inputs.
\<close>

definition StartsWith :: "string \<Rightarrow> string \<Rightarrow> bool" where
  "StartsWith s p = (take (length p) s = p)"

text \<open>\<open>FGuidFixerModule::ShouldModify\<close>, lines 76 to 84.\<close>

definition ShouldModify :: "UObject \<Rightarrow> bool" where
  "ShouldModify Object =
     (let bIsEngineContent = StartsWith (PathName Object) ''/Engine/'';
          bIsProjectContent = StartsWith (PathName Object) ''/Game/'';
          bIsPluginContent = (\<not> bIsEngineContent \<and> \<not> bIsProjectContent)
      in bIsProjectContent)"

text \<open>
  The state of a scan. \<open>objs\<close> is the object store, \<open>bMadeChanges\<close> and \<open>bHasWarnings\<close>
  are the two locals of every operation. \<open>NewGuidCalls\<close> counts the identifiers drawn so
  far from the host's generator: \<open>SetLightingGuid()\<close> takes no argument and stores
  \<open>FGuid::NewGuid()\<close>, which the model reads from a sequence \<open>gen\<close> given as a parameter,
  the \<open>n\<close>-th call returning \<open>gen n\<close>. The two collision scans add the registry
  \<open>TMap<FGuid, T*> Guids\<close>. \<open>Modify()\<close> and \<open>UE_LOG\<close> only notify the host; nothing of
  what they write is read back by the scans, so they are left out.
\<close>

record scan_state =
  objs :: "ptr \<Rightarrow> UObject"
  NewGuidCalls :: nat
  bMadeChanges :: bool
  bHasWarnings :: bool

record dedup_state = scan_state +
  Guids :: "FGuid \<rightharpoonup> ptr"

definition GetLightingGuid :: "'a scan_state_scheme \<Rightarrow> ptr \<Rightarrow> FGuid" where
  "GetLightingGuid s p = LightingGuid (objs s p)"

definition SetLightingGuid ::
  "(nat \<Rightarrow> FGuid) \<Rightarrow> ptr \<Rightarrow> 'a scan_state_scheme \<Rightarrow> 'a scan_state_scheme" where
  "SetLightingGuid gen p s =
     s\<lparr>objs := (objs s)(p := (objs s p)\<lparr>LightingGuid := gen (NewGuidCalls s)\<rparr>),
       NewGuidCalls := Suc (NewGuidCalls s)\<rparr>"

subsection \<open>The collision scans\<close>

text \<open>
  Lines 113 to 155 of \<open>FixMaterialGuids\<close>; lines 183 to 225 of \<open>FixTextureGuids\<close> are the
  same text with \<open>Texture\<close> for \<open>Material\<close>. \<open>TMap::Add\<close> replaces the value of a key
  that is present. The first component of the pairs is the state, the second the local
  \<open>bAnyGuidsModified\<close>.
\<close>

definition FindAndFixDuplicate ::
  "(nat \<Rightarrow> FGuid) \<Rightarrow> ptr \<Rightarrow> dedup_state \<Rightarrow> dedup_state" where
  "FindAndFixDuplicate gen Object s =
     (let CacheCurrentGuid = GetLightingGuid s Object in
      case Guids s CacheCurrentGuid of
        None \<Rightarrow> s\<lparr>Guids := (Guids s)(GetLightingGuid s Object \<mapsto> Object)\<rparr>
      | Some ResultRef \<Rightarrow>
          (let (s1, m1) =
                 (if GetLightingGuid s ResultRef = GetLightingGuid s Object
                  then (if ShouldModify (objs s ResultRef)
                        then (let t = SetLightingGuid gen ResultRef s in
                              (t\<lparr>Guids := ((Guids t)(CacheCurrentGuid := None))
                                            (GetLightingGuid t ResultRef \<mapsto> ResultRef)\<rparr>,
                               True))
                        else (s, False))
                  else (s, False));
               (s2, m2) =
                 (if ShouldModify (objs s1 Object)
                  then (let t = SetLightingGuid gen Object s1 in
                        (t\<lparr>bMadeChanges := True,
                           Guids := (Guids t)(GetLightingGuid t Object \<mapsto> Object)\<rparr>, True))
                  else (s1, m1))
           in if \<not> m2 then s2\<lparr>bHasWarnings := True\<rparr> else s2))"

text \<open>One iteration of the loop of \<open>FixMaterialGuids\<close>, lines 96 to 155.\<close>

definition FixMaterialGuids_body ::
  "(nat \<Rightarrow> FGuid) \<Rightarrow> ptr \<Rightarrow> dedup_state \<Rightarrow> dedup_state" where
  "FixMaterialGuids_body gen Material s =
     (if \<not> IsValid (GetLightingGuid s Material)
      then (if ShouldModify (objs s Material)
            then FindAndFixDuplicate gen Material
                   ((SetLightingGuid gen Material s)\<lparr>bMadeChanges := True\<rparr>)
            else s\<lparr>bHasWarnings := True\<rparr>)
      else FindAndFixDuplicate gen Material s)"

text \<open>One iteration of the loop of \<open>FixTextureGuids\<close>, lines 176 to 225.\<close>

definition FixTextureGuids_body ::
  "(nat \<Rightarrow> FGuid) \<Rightarrow> ptr \<Rightarrow> dedup_state \<Rightarrow> dedup_state" where
  "FixTextureGuids_body gen Texture s =
     (if \<not> IsValid (GetLightingGuid s Texture)
      then s\<lparr>bHasWarnings := True\<rparr>
      else FindAndFixDuplicate gen Texture s)"

text \<open>One iteration of the loop of \<open>FixEmptyTextureGuids\<close>, lines 244 to 260.\<close>

definition FixEmptyTextureGuids_body ::
  "(nat \<Rightarrow> FGuid) \<Rightarrow> ptr \<Rightarrow> scan_state \<Rightarrow> scan_state" where
  "FixEmptyTextureGuids_body gen Texture s =
     (if IsValid (GetLightingGuid s Texture) then s
      else if ShouldModify (objs s Texture)
           then (SetLightingGuid gen Texture s)\<lparr>bMadeChanges := True\<rparr>
           else s\<lparr>bHasWarnings := True\<rparr>)"

text \<open>
  The loops. \<open>TObjectIterator\<close> yields the live objects of the kind; the model takes
  them as a list of pointers, in the order of the iterator.
\<close>

fun FixMaterialGuids_loop ::
  "(nat \<Rightarrow> FGuid) \<Rightarrow> ptr list \<Rightarrow> dedup_state \<Rightarrow> dedup_state" where
  "FixMaterialGuids_loop gen [] s = s"
| "FixMaterialGuids_loop gen (Material # rest) s =
     FixMaterialGuids_loop gen rest (FixMaterialGuids_body gen Material s)"

fun FixTextureGuids_loop ::
  "(nat \<Rightarrow> FGuid) \<Rightarrow> ptr list \<Rightarrow> dedup_state \<Rightarrow> dedup_state" where
  "FixTextureGuids_loop gen [] s = s"
| "FixTextureGuids_loop gen (Texture # rest) s =
     FixTextureGuids_loop gen rest (FixTextureGuids_body gen Texture s)"

fun FixEmptyTextureGuids_loop ::
  "(nat \<Rightarrow> FGuid) \<Rightarrow> ptr list \<Rightarrow> scan_state \<Rightarrow> scan_state" where
  "FixEmptyTextureGuids_loop gen [] s = s"
| "FixEmptyTextureGuids_loop gen (Texture # rest) s =
     FixEmptyTextureGuids_loop gen rest (FixEmptyTextureGuids_body gen Texture s)"

subsection \<open>The reports\<close>

text \<open>Lines 158 to 164, 228 to 234 and 263 to 269: the text handed to the dialog.\<close>

definition FixMaterialGuids_DialogText :: "bool \<Rightarrow> bool \<Rightarrow> string" where
  "FixMaterialGuids_DialogText made warn =
     (if made \<and> warn
      then ''At least one material GUID has been changed, but there are some unresolvable issues (Please refer to log). Use save all to save these changes.''
      else if made
      then ''At least one material GUID has been changed. Use save all to save these changes.''
      else if warn
      then ''No material GUID has been changed, but there are some unresolvable issues (Please refer to log).''
      else ''No duplicate material GUIDs found.'')"

definition FixTextureGuids_DialogText :: "bool \<Rightarrow> bool \<Rightarrow> string" where
  "FixTextureGuids_DialogText made warn =
     (if made \<and> warn
      then ''At least one texture GUID has been changed, but there are some unresolvable issues (Please refer to log). Use save all to save these changes.''
      else if made
      then ''At least one texture GUID has been changed. Use save all to save these changes.''
      else if warn
      then ''No texture GUID has been changed, but there are some unresolvable issues (Please refer to log).''
      else ''No duplicate texture GUIDs found.'')"

definition FixEmptyTextureGuids_DialogText :: "bool \<Rightarrow> bool \<Rightarrow> string" where
  "FixEmptyTextureGuids_DialogText made warn =
     (if made \<and> warn
      then ''At least one texture GUID has been changed, but there are some unresolvable issues (Please refer to log). Use save all to save these changes.''
      else if made
      then ''At least one texture GUID has been changed. Use save all to save these changes.''
      else if warn
      then ''No texture GUID has been changed, but there are some unresolvable issues (Please refer to log).''
      else ''No empty texture GUIDs found.'')"

subsection \<open>The three operations\<close>

text \<open>
  Each operation starts from the host's objects \<open>heap\<close> with both flags false (and an
  empty registry), runs its loop over the enumeration and opens the dialog with the
  text chosen from the two flags. The result is the final state and the text shown.
\<close>

definition dedup_init :: "(ptr \<Rightarrow> UObject) \<Rightarrow> dedup_state" where
  "dedup_init heap =
     \<lparr>objs = heap, NewGuidCalls = 0, bMadeChanges = False, bHasWarnings = False,
      Guids = Map.empty\<rparr>"

definition scan_init :: "(ptr \<Rightarrow> UObject) \<Rightarrow> scan_state" where
  "scan_init heap =
     \<lparr>objs = heap, NewGuidCalls = 0, bMadeChanges = False, bHasWarnings = False\<rparr>"

definition FixMaterialGuids ::
  "(nat \<Rightarrow> FGuid) \<Rightarrow> (ptr \<Rightarrow> UObject) \<Rightarrow> ptr list \<Rightarrow> dedup_state \<times> string" where
  "FixMaterialGuids gen heap enum =
     (let s = FixMaterialGuids_loop gen enum (dedup_init heap)
      in (s, FixMaterialGuids_DialogText (bMadeChanges s) (bHasWarnings s)))"

definition FixTextureGuids ::
  "(nat \<Rightarrow> FGuid) \<Rightarrow> (ptr \<Rightarrow> UObject) \<Rightarrow> ptr list \<Rightarrow> dedup_state \<times> string" where
  "FixTextureGuids gen heap enum =
     (let s = FixTextureGuids_loop gen enum (dedup_init heap)
      in (s, FixTextureGuids_DialogText (bMadeChanges s) (bHasWarnings s)))"

definition FixEmptyTextureGuids ::
  "(nat \<Rightarrow> FGuid) \<Rightarrow> (ptr \<Rightarrow> UObject) \<Rightarrow> ptr list \<Rightarrow> scan_state \<times> string" where
  "FixEmptyTextureGuids gen heap enum =
     (let s = FixEmptyTextureGuids_loop gen enum (scan_init heap)
      in (s, FixEmptyTextureGuids_DialogText (bMadeChanges s) (bHasWarnings s)))"

subsection \<open>Auxiliary notions for the proofs\<close>

text \<open>
  The two reassignments of the collision block, named so that the proofs can treat them
  one at a time: the incumbent found in the registry is given a new identifier and moved
  to its new key (lines 127 to 131), and the object of the current iteration is given a
  new identifier and registered under it (lines 138 to 142).
\<close>

definition reassign_incumbent ::
  "(nat \<Rightarrow> FGuid) \<Rightarrow> FGuid \<Rightarrow> ptr \<Rightarrow> dedup_state \<Rightarrow> dedup_state" where
  "reassign_incumbent gen g r s =
     (SetLightingGuid gen r s)\<lparr>Guids := ((Guids s)(g := None))(gen (NewGuidCalls s) \<mapsto> r)\<rparr>"

definition reassign_current ::
  "(nat \<Rightarrow> FGuid) \<Rightarrow> ptr \<Rightarrow> dedup_state \<Rightarrow> dedup_state" where
  "reassign_current gen p s =
     (SetLightingGuid gen p s)\<lparr>bMadeChanges := True,
        Guids := (Guids s)(gen (NewGuidCalls s) \<mapsto> p)\<rparr>"

text \<open>
  The registry is consistent over the set \<open>P\<close> of objects already visited: every entry
  points to a visited object that holds the key of the entry.
\<close>

definition registry_ok :: "ptr set \<Rightarrow> dedup_state \<Rightarrow> bool" where
  "registry_ok P s = (\<forall>k a. Guids s k = Some a \<longrightarrow> a \<in> P \<and> GetLightingGuid s a = k)"

text \<open>
  The assumption on the host's generator for a scan that draws \<open>n\<close> identifiers: they
  are pairwise distinct and none of them is in the set \<open>G\<close> of the identifiers held when
  the scan starts.
\<close>

definition fresh_gen :: "(nat \<Rightarrow> FGuid) \<Rightarrow> FGuid set \<Rightarrow> nat \<Rightarrow> bool" where
  "fresh_gen gen G n =
     ((\<forall>i<n. \<forall>j<n. i \<noteq> j \<longrightarrow> gen i \<noteq> gen j) \<and> (\<forall>i<n. gen i \<notin> G))"

text \<open>
  Further invariants of a collision scan: every visited object that may be modified is
  the registered holder of its identifier, and every object holds either its initial
  identifier or one drawn from the generator during the scan.
\<close>

definition owners_registered :: "ptr set \<Rightarrow> dedup_state \<Rightarrow> bool" where
  "owners_registered P s =
     (\<forall>a\<in>P. ShouldModify (objs s a) \<longrightarrow> Guids s (GetLightingGuid s a) = Some a)"

definition held_known ::
  "(nat \<Rightarrow> FGuid) \<Rightarrow> (ptr \<Rightarrow> UObject) \<Rightarrow> ptr set \<Rightarrow> dedup_state \<Rightarrow> bool" where
  "held_known gen heap E s =
     (\<forall>a\<in>E. GetLightingGuid s a = LightingGuid (heap a)
            \<or> (\<exists>i<NewGuidCalls s. GetLightingGuid s a = gen i))"

definition scan_inv ::
  "(nat \<Rightarrow> FGuid) \<Rightarrow> (ptr \<Rightarrow> UObject) \<Rightarrow> ptr set \<Rightarrow> ptr set \<Rightarrow> dedup_state \<Rightarrow> bool" where
  "scan_inv gen heap E P s =
     (registry_ok P s \<and> P \<subseteq> E \<and> owners_registered P s \<and> held_known gen heap E s)"

text \<open>
  Two states agree at the identifier \<open>G\<close>: the registry has the same entry for it and
  the same objects hold it.
\<close>

definition same_at :: "FGuid \<Rightarrow> dedup_state \<Rightarrow> dedup_state \<Rightarrow> bool" where
  "same_at G s t =
     (Guids t G = Guids s G \<and> (\<forall>b. (GetLightingGuid t b = G) = (GetLightingGuid s b = G)))"

text \<open>
  Paths, and with them the verdict of \<open>ShouldModify\<close>, are those of the initial store.
\<close>

definition paths_kept :: "(ptr \<Rightarrow> UObject) \<Rightarrow> dedup_state \<Rightarrow> bool" where
  "paths_kept heap s = (\<forall>a. ShouldModify (objs s a) = ShouldModify (heap a))"

text \<open>
  What a collision scan has done about an object \<open>x\<close> that may not be modified: \<open>x\<close> is
  the registered holder of its identifier, or a warning was raised, or an object that
  may be modified and shared the identifier of \<open>x\<close> was given one drawn from the
  generator.
\<close>

definition settled ::
  "(nat \<Rightarrow> FGuid) \<Rightarrow> (ptr \<Rightarrow> UObject) \<Rightarrow> ptr set \<Rightarrow> ptr \<Rightarrow> dedup_state \<Rightarrow> bool" where
  "settled gen heap E x s =
     (Guids s (LightingGuid (heap x)) = Some x
      \<or> bHasWarnings s
      \<or> (\<exists>r\<in>E. r \<noteq> x \<and> ShouldModify (heap r)
                \<and> LightingGuid (heap r) = LightingGuid (heap x)
                \<and> (\<exists>i<NewGuidCalls s. GetLightingGuid s r = gen i)))"

subsection \<open>Example inputs\<close>

text \<open>
  A store built from a list of objects, object \<open>i\<close> at pointer \<open>i\<close>; a generator that
  counts up from 100; and how the host's generator goes on in a second run.
\<close>

definition heap_of :: "UObject list \<Rightarrow> ptr \<Rightarrow> UObject" where
  "heap_of os p = (if p < length os then os ! p else \<lparr>PathName = [], LightingGuid = 0\<rparr>)"

definition gen_example :: "nat \<Rightarrow> FGuid" where
  "gen_example n = 100 + of_nat n"

definition rerun_gen :: "(nat \<Rightarrow> FGuid) \<Rightarrow> 'a scan_state_scheme \<Rightarrow> nat \<Rightarrow> FGuid" where
  "rerun_gen gen s n = gen (NewGuidCalls s + n)"

definition heapAB :: "ptr \<Rightarrow> UObject" where
  "heapAB = heap_of [\<lparr>PathName = ''/Game/A'', LightingGuid = 7\<rparr>,
                     \<lparr>PathName = ''/Engine/B'', LightingGuid = 7\<rparr>]"

definition heapPP :: "ptr \<Rightarrow> UObject" where
  "heapPP = heap_of [\<lparr>PathName = ''/Game/A'', LightingGuid = 7\<rparr>,
                     \<lparr>PathName = ''/Game/B'', LightingGuid = 7\<rparr>]"

definition heapEE :: "ptr \<Rightarrow> UObject" where
  "heapEE = heap_of [\<lparr>PathName = ''/Engine/A'', LightingGuid = 7\<rparr>,
                     \<lparr>PathName = ''/Plugin/B'', LightingGuid = 7\<rparr>]"

definition heapABC :: "ptr \<Rightarrow> UObject" where
  "heapABC = heap_of [\<lparr>PathName = ''/Game/A'', LightingGuid = 7\<rparr>,
                      \<lparr>PathName = ''/Engine/B'', LightingGuid = 7\<rparr>,
                      \<lparr>PathName = ''/Game/C'', LightingGuid = 7\<rparr>]"

definition heapT :: "ptr \<Rightarrow> UObject" where
  "heapT = heap_of [\<lparr>PathName = ''/Game/T'', LightingGuid = 0\<rparr>]"

definition heapRun :: "ptr \<Rightarrow> UObject" where
  "heapRun = heap_of [\<lparr>PathName = ''/Engine/E'', LightingGuid = 0\<rparr>,
                      \<lparr>PathName = ''/Game/M'', LightingGuid = 0\<rparr>,
                      \<lparr>PathName = ''/Engine/K'', LightingGuid = 7\<rparr>,
                      \<lparr>PathName = ''/Game/A'', LightingGuid = 7\<rparr>,
                      \<lparr>PathName = ''/Game/B'', LightingGuid = 7\<rparr>]"

definition heapPPQ :: "ptr \<Rightarrow> UObject" where
  "heapPPQ = heap_of [\<lparr>PathName = ''/Game/A'', LightingGuid = 7\<rparr>,
                      \<lparr>PathName = ''/Game/B'', LightingGuid = 7\<rparr>,
                      \<lparr>PathName = ''/Engine/C'', LightingGuid = 9\<rparr>]"

section \<open>Lemmas about the scans\<close>

subsection \<open>Basic facts\<close>

lemma ShouldModify_eq: "ShouldModify a = StartsWith (PathName a) ''/Game/''"
  by (simp add: ShouldModify_def)

lemma ShouldModify_guid_update [simp]:
  "ShouldModify (a\<lparr>LightingGuid := g\<rparr>) = ShouldModify a"
  by (simp add: ShouldModify_def)

lemma objs_SetLightingGuid:
  "objs (SetLightingGuid gen p s) q =
     (if q = p then (objs s p)\<lparr>LightingGuid := gen (NewGuidCalls s)\<rparr> else objs s q)"
  by (simp add: SetLightingGuid_def)

lemma SetLightingGuid_simps [simp]:
  "NewGuidCalls (SetLightingGuid gen p s) = Suc (NewGuidCalls s)"
  "bMadeChanges (SetLightingGuid gen p s) = bMadeChanges s"
  "bHasWarnings (SetLightingGuid gen p s) = bHasWarnings s"
  "GetLightingGuid (SetLightingGuid gen p s) q =
     (if q = p then gen (NewGuidCalls s) else GetLightingGuid s q)"
  "ShouldModify (objs (SetLightingGuid gen p s) q) = ShouldModify (objs s q)"
  by (simp_all add: SetLightingGuid_def GetLightingGuid_def)

lemma SetLightingGuid_Guids [simp]: "Guids (SetLightingGuid gen p s) = Guids s"
  by (simp add: SetLightingGuid_def)

lemma GetLightingGuid_updates [simp]:
  "GetLightingGuid (s\<lparr>bMadeChanges := b\<rparr>) q = GetLightingGuid s q"
  "GetLightingGuid (s\<lparr>bHasWarnings := b\<rparr>) q = GetLightingGuid s q"
  by (simp_all add: GetLightingGuid_def)

lemma GetLightingGuid_Guids_update [simp]:
  "GetLightingGuid (s\<lparr>Guids := m\<rparr>) q = GetLightingGuid s q"
  by (simp add: GetLightingGuid_def)

lemma objs_reassign_incumbent:
  "objs (reassign_incumbent gen g r s) q =
     (if q = r then (objs s r)\<lparr>LightingGuid := gen (NewGuidCalls s)\<rparr> else objs s q)"
  by (simp add: reassign_incumbent_def objs_SetLightingGuid)

lemma reassign_incumbent_simps [simp]:
  "NewGuidCalls (reassign_incumbent gen g r s) = Suc (NewGuidCalls s)"
  "bMadeChanges (reassign_incumbent gen g r s) = bMadeChanges s"
  "bHasWarnings (reassign_incumbent gen g r s) = bHasWarnings s"
  "Guids (reassign_incumbent gen g r s) = ((Guids s)(g := None))(gen (NewGuidCalls s) \<mapsto> r)"
  "GetLightingGuid (reassign_incumbent gen g r s) q =
     (if q = r then gen (NewGuidCalls s) else GetLightingGuid s q)"
  "ShouldModify (objs (reassign_incumbent gen g r s) q) = ShouldModify (objs s q)"
  by (simp_all add: reassign_incumbent_def)

lemma objs_reassign_current:
  "objs (reassign_current gen p s) q =
     (if q = p then (objs s p)\<lparr>LightingGuid := gen (NewGuidCalls s)\<rparr> else objs s q)"
  by (simp add: reassign_current_def objs_SetLightingGuid)

lemma reassign_current_simps [simp]:
  "NewGuidCalls (reassign_current gen p s) = Suc (NewGuidCalls s)"
  "bMadeChanges (reassign_current gen p s) = True"
  "bHasWarnings (reassign_current gen p s) = bHasWarnings s"
  "Guids (reassign_current gen p s) = (Guids s)(gen (NewGuidCalls s) \<mapsto> p)"
  "GetLightingGuid (reassign_current gen p s) q =
     (if q = p then gen (NewGuidCalls s) else GetLightingGuid s q)"
  "ShouldModify (objs (reassign_current gen p s) q) = ShouldModify (objs s q)"
  by (simp_all add: reassign_current_def)

lemma FindAndFixDuplicate_None:
  "Guids s (GetLightingGuid s p) = None \<Longrightarrow>
   FindAndFixDuplicate gen p s = s\<lparr>Guids := (Guids s)(GetLightingGuid s p \<mapsto> p)\<rparr>"
  by (simp add: FindAndFixDuplicate_def)

lemma FindAndFixDuplicate_Some:
  "Guids s (GetLightingGuid s p) = Some r \<Longrightarrow>
   FindAndFixDuplicate gen p s =
     (if GetLightingGuid s r = GetLightingGuid s p \<and> ShouldModify (objs s r)
      then (if ShouldModify (objs s p)
            then reassign_current gen p (reassign_incumbent gen (GetLightingGuid s p) r s)
            else reassign_incumbent gen (GetLightingGuid s p) r s)
      else (if ShouldModify (objs s p) then reassign_current gen p s
            else s\<lparr>bHasWarnings := True\<rparr>))"
  unfolding FindAndFixDuplicate_def reassign_current_def reassign_incumbent_def Let_def
  by simp

subsection \<open>The policy gate\<close>

lemma reassign_incumbent_keeps:
  "\<not> ShouldModify (objs s q) \<Longrightarrow> ShouldModify (objs s r) \<Longrightarrow>
   objs (reassign_incumbent gen g r s) q = objs s q"
  by (cases "q = r") (simp_all add: objs_reassign_incumbent)

lemma reassign_current_keeps:
  "\<not> ShouldModify (objs s q) \<Longrightarrow> ShouldModify (objs s p) \<Longrightarrow>
   objs (reassign_current gen p s) q = objs s q"
  by (cases "q = p") (simp_all add: objs_reassign_current)

lemma FindAndFixDuplicate_keeps:
  assumes "\<not> ShouldModify (objs s q)"
  shows "objs (FindAndFixDuplicate gen p s) q = objs s q"
proof (cases "Guids s (GetLightingGuid s p)")
  case None
  then show ?thesis by (simp add: FindAndFixDuplicate_None)
next
  case (Some r)
  show ?thesis
    using assms
    by (simp add: FindAndFixDuplicate_Some [OF Some] reassign_incumbent_keeps
        reassign_current_keeps)
qed

lemma FixMaterialGuids_body_keeps:
  assumes nm: "\<not> ShouldModify (objs s q)"
  shows "objs (FixMaterialGuids_body gen p s) q = objs s q"
proof -
  let ?t = "(SetLightingGuid gen p s)\<lparr>bMadeChanges := True\<rparr>"
  have "objs (FindAndFixDuplicate gen p ?t) q = objs s q" if "ShouldModify (objs s p)"
  proof -
    from that nm have "q \<noteq> p" by auto
    with nm have "\<not> ShouldModify (objs ?t q)" and "objs ?t q = objs s q"
      by (simp_all add: objs_SetLightingGuid)
    then show ?thesis using FindAndFixDuplicate_keeps [of ?t q gen p] by simp
  qed
  with nm show ?thesis
    by (simp add: FixMaterialGuids_body_def FindAndFixDuplicate_keeps)
qed

lemma FixTextureGuids_body_keeps:
  "\<not> ShouldModify (objs s q) \<Longrightarrow> objs (FixTextureGuids_body gen p s) q = objs s q"
  by (simp add: FixTextureGuids_body_def FindAndFixDuplicate_keeps)

lemma FixEmptyTextureGuids_body_keeps:
  "\<not> ShouldModify (objs s q) \<Longrightarrow> objs (FixEmptyTextureGuids_body gen p s) q = objs s q"
  by (cases "q = p") (simp_all add: FixEmptyTextureGuids_body_def objs_SetLightingGuid)

lemma FixMaterialGuids_loop_keeps:
  "\<not> ShouldModify (objs s q) \<Longrightarrow> objs (FixMaterialGuids_loop gen xs s) q = objs s q"
  by (induction xs arbitrary: s) (simp_all add: FixMaterialGuids_body_keeps)

lemma FixTextureGuids_loop_keeps:
  "\<not> ShouldModify (objs s q) \<Longrightarrow> objs (FixTextureGuids_loop gen xs s) q = objs s q"
  by (induction xs arbitrary: s) (simp_all add: FixTextureGuids_body_keeps)

lemma FixEmptyTextureGuids_loop_keeps:
  "\<not> ShouldModify (objs s q) \<Longrightarrow> objs (FixEmptyTextureGuids_loop gen xs s) q = objs s q"
  by (induction xs arbitrary: s) (simp_all add: FixEmptyTextureGuids_body_keeps)

subsection \<open>Paths never change\<close>

lemma FindAndFixDuplicate_ShouldModify [simp]:
  "ShouldModify (objs (FindAndFixDuplicate gen p s) q) = ShouldModify (objs s q)"
proof (cases "Guids s (GetLightingGuid s p)")
  case None
  then show ?thesis by (simp add: FindAndFixDuplicate_None)
next
  case (Some r)
  show ?thesis by (simp add: FindAndFixDuplicate_Some [OF Some])
qed

lemma FixMaterialGuids_body_ShouldModify [simp]:
  "ShouldModify (objs (FixMaterialGuids_body gen p s) q) = ShouldModify (objs s q)"
  by (simp add: FixMaterialGuids_body_def)

lemma FixTextureGuids_body_ShouldModify [simp]:
  "ShouldModify (objs (FixTextureGuids_body gen p s) q) = ShouldModify (objs s q)"
  by (simp add: FixTextureGuids_body_def)

lemma FixMaterialGuids_loop_ShouldModify [simp]:
  "ShouldModify (objs (FixMaterialGuids_loop gen xs s) q) = ShouldModify (objs s q)"
  by (induction xs arbitrary: s) simp_all

lemma FixTextureGuids_loop_ShouldModify [simp]:
  "ShouldModify (objs (FixTextureGuids_loop gen xs s) q) = ShouldModify (objs s q)"
  by (induction xs arbitrary: s) simp_all

lemma FixMaterialGuids_loop_append:
  "FixMaterialGuids_loop gen (xs @ ys) s =
     FixMaterialGuids_loop gen ys (FixMaterialGuids_loop gen xs s)"
  by (induction xs arbitrary: s) simp_all

lemma FixTextureGuids_loop_append:
  "FixTextureGuids_loop gen (xs @ ys) s =
     FixTextureGuids_loop gen ys (FixTextureGuids_loop gen xs s)"
  by (induction xs arbitrary: s) simp_all

lemma FixEmptyTextureGuids_loop_append:
  "FixEmptyTextureGuids_loop gen (xs @ ys) s =
     FixEmptyTextureGuids_loop gen ys (FixEmptyTextureGuids_loop gen xs s)"
  by (induction xs arbitrary: s) simp_all

subsection \<open>The registry stays consistent\<close>

lemma registry_okD:
  "registry_ok P s \<Longrightarrow> Guids s k = Some a \<Longrightarrow> a \<in> P \<and> GetLightingGuid s a = k"
  by (simp add: registry_ok_def)

lemma registry_ok_flags [simp]:
  "registry_ok P (s\<lparr>bHasWarnings := b\<rparr>) = registry_ok P s"
  "registry_ok P (s\<lparr>bMadeChanges := b\<rparr>) = registry_ok P s"
  by (simp_all add: registry_ok_def)

lemma registry_ok_mono: "registry_ok P s \<Longrightarrow> P \<subseteq> Q \<Longrightarrow> registry_ok Q s"
  by (auto simp add: registry_ok_def)

lemma registry_ok_init: "registry_ok {} (dedup_init heap)"
  by (simp add: registry_ok_def dedup_init_def)

lemma registry_ok_SetLightingGuid:
  "registry_ok P s \<Longrightarrow> p \<notin> P \<Longrightarrow> registry_ok P (SetLightingGuid gen p s)"
  by (auto simp add: registry_ok_def)

lemma registry_ok_register:
  "registry_ok P s \<Longrightarrow>
   registry_ok (insert p P) (s\<lparr>Guids := (Guids s)(GetLightingGuid s p \<mapsto> p)\<rparr>)"
  by (auto simp add: registry_ok_def)

lemma registry_ok_reassign_incumbent:
  "registry_ok P s \<Longrightarrow> Guids s g = Some r \<Longrightarrow>
   registry_ok P (reassign_incumbent gen g r s)"
  by (auto simp add: registry_ok_def)

lemma registry_ok_reassign_current:
  "registry_ok P s \<Longrightarrow> p \<notin> P \<Longrightarrow> registry_ok (insert p P) (reassign_current gen p s)"
  by (auto simp add: registry_ok_def)

lemma registry_ok_FindAndFixDuplicate:
  assumes ok: "registry_ok P s" and new: "p \<notin> P"
  shows "registry_ok (insert p P) (FindAndFixDuplicate gen p s)"
proof (cases "Guids s (GetLightingGuid s p)")
  case None
  then show ?thesis using ok by (simp add: FindAndFixDuplicate_None registry_ok_register)
next
  case (Some r)
  have inc: "registry_ok P (reassign_incumbent gen (GetLightingGuid s p) r s)"
    using ok Some by (rule registry_ok_reassign_incumbent)
  have "registry_ok (insert p P) (reassign_incumbent gen (GetLightingGuid s p) r s)"
    using inc by (rule registry_ok_mono) auto
  moreover have "registry_ok (insert p P)
      (reassign_current gen p (reassign_incumbent gen (GetLightingGuid s p) r s))"
    using inc new by (rule registry_ok_reassign_current)
  moreover have "registry_ok (insert p P) (reassign_current gen p s)"
    using ok new by (rule registry_ok_reassign_current)
  moreover have "registry_ok (insert p P) s"
    using ok by (rule registry_ok_mono) auto
  ultimately show ?thesis
    by (simp add: FindAndFixDuplicate_Some [OF Some])
qed

lemma registry_ok_FixMaterialGuids_body:
  assumes ok: "registry_ok P s" and new: "p \<notin> P"
  shows "registry_ok (insert p P) (FixMaterialGuids_body gen p s)"
proof -
  have "registry_ok P ((SetLightingGuid gen p s)\<lparr>bMadeChanges := True\<rparr>)"
    using ok new by (simp add: registry_ok_SetLightingGuid)
  then have "registry_ok (insert p P)
      (FindAndFixDuplicate gen p ((SetLightingGuid gen p s)\<lparr>bMadeChanges := True\<rparr>))"
    using new by (rule registry_ok_FindAndFixDuplicate)
  moreover have "registry_ok (insert p P) (FindAndFixDuplicate gen p s)"
    using ok new by (rule registry_ok_FindAndFixDuplicate)
  moreover have "registry_ok (insert p P) s"
    using ok by (rule registry_ok_mono) auto
  ultimately show ?thesis
    by (simp add: FixMaterialGuids_body_def)
qed

lemma registry_ok_FixTextureGuids_body:
  assumes ok: "registry_ok P s" and new: "p \<notin> P"
  shows "registry_ok (insert p P) (FixTextureGuids_body gen p s)"
proof -
  have "registry_ok (insert p P) (FindAndFixDuplicate gen p s)"
    using ok new by (rule registry_ok_FindAndFixDuplicate)
  moreover have "registry_ok (insert p P) s"
    using ok by (rule registry_ok_mono) auto
  ultimately show ?thesis
    by (simp add: FixTextureGuids_body_def)
qed

lemma registry_ok_FixMaterialGuids_loop:
  "registry_ok P s \<Longrightarrow> distinct xs \<Longrightarrow> set xs \<inter> P = {} \<Longrightarrow>
   registry_ok (P \<union> set xs) (FixMaterialGuids_loop gen xs s)"
proof (induction xs arbitrary: P s)
  case Nil
  then show ?case by simp
next
  case (Cons x xs)
  from Cons.prems have "registry_ok (insert x P) (FixMaterialGuids_body gen x s)"
    by (simp add: registry_ok_FixMaterialGuids_body)
  moreover from Cons.prems have "distinct xs" "set xs \<inter> insert x P = {}" by auto
  ultimately have "registry_ok (insert x P \<union> set xs)
      (FixMaterialGuids_loop gen xs (FixMaterialGuids_body gen x s))"
    by (rule Cons.IH)
  then show ?case by simp
qed

lemma registry_ok_FixTextureGuids_loop:
  "registry_ok P s \<Longrightarrow> distinct xs \<Longrightarrow> set xs \<inter> P = {} \<Longrightarrow>
   registry_ok (P \<union> set xs) (FixTextureGuids_loop gen xs s)"
proof (induction xs arbitrary: P s)
  case Nil
  then show ?case by simp
next
  case (Cons x xs)
  from Cons.prems have "registry_ok (insert x P) (FixTextureGuids_body gen x s)"
    by (simp add: registry_ok_FixTextureGuids_body)
  moreover from Cons.prems have "distinct xs" "set xs \<inter> insert x P = {}" by auto
  ultimately have "registry_ok (insert x P \<union> set xs)
      (FixTextureGuids_loop gen xs (FixTextureGuids_body gen x s))"
    by (rule Cons.IH)
  then show ?case by simp
qed

lemmas run_defs = FixMaterialGuids_def FixTextureGuids_def FixEmptyTextureGuids_def
  dedup_init_def scan_init_def FixMaterialGuids_body_def FixTextureGuids_body_def
  FixEmptyTextureGuids_body_def FindAndFixDuplicate_def GetLightingGuid_def
  SetLightingGuid_def IsValid_def ShouldModify_def StartsWith_def Let_def heap_of_def
  gen_example_def rerun_gen_def

subsection \<open>Distinct identifiers under a fresh generator\<close>

lemma unused_guid:
  assumes hk: "held_known gen heap E s"
    and fr: "fresh_gen gen (LightingGuid ` heap ` E) N"
    and n: "NewGuidCalls s \<le> n" "n < N" and a: "a \<in> E"
  shows "GetLightingGuid s a \<noteq> gen n"
proof
  assume eq: "GetLightingGuid s a = gen n"
  from hk a consider "GetLightingGuid s a = LightingGuid (heap a)"
    | i where "i < NewGuidCalls s" "GetLightingGuid s a = gen i"
    by (auto simp add: held_known_def)
  then show False
  proof cases
    case 1
    with a have "gen n \<in> LightingGuid ` heap ` E" using eq by auto
    with fr n show False by (simp add: fresh_gen_def)
  next
    case 2
    with n have "i < N" "i \<noteq> n" by auto
    with fr n have "gen i \<noteq> gen n" by (simp add: fresh_gen_def)
    with 2 eq show False by simp
  qed
qed

lemma scan_inv_flags [simp]:
  "scan_inv gen heap E P (s\<lparr>bHasWarnings := b\<rparr>) = scan_inv gen heap E P s"
  "scan_inv gen heap E P (s\<lparr>bMadeChanges := b\<rparr>) = scan_inv gen heap E P s"
  by (simp_all add: scan_inv_def owners_registered_def held_known_def)

lemma scan_inv_init: "scan_inv gen heap E {} (dedup_init heap)"
  by (simp add: scan_inv_def registry_ok_init owners_registered_def held_known_def)
     (simp add: dedup_init_def GetLightingGuid_def)

lemma scan_inv_skip:
  assumes "scan_inv gen heap E P s" "p \<in> E" "\<not> ShouldModify (objs s p)"
  shows "scan_inv gen heap E (insert p P) s"
  using assms
  by (auto simp add: scan_inv_def owners_registered_def intro: registry_ok_mono)

lemma scan_inv_register:
  assumes inv: "scan_inv gen heap E P s" and p: "p \<in> E"
    and none: "Guids s (GetLightingGuid s p) = None"
  shows "scan_inv gen heap E (insert p P) (s\<lparr>Guids := (Guids s)(GetLightingGuid s p \<mapsto> p)\<rparr>)"
proof -
  have "owners_registered (insert p P) (s\<lparr>Guids := (Guids s)(GetLightingGuid s p \<mapsto> p)\<rparr>)"
    using inv none by (auto simp add: scan_inv_def owners_registered_def)
  moreover have "held_known gen heap E (s\<lparr>Guids := (Guids s)(GetLightingGuid s p \<mapsto> p)\<rparr>)"
    using inv by (simp add: scan_inv_def held_known_def)
  ultimately show ?thesis
    using inv p by (simp add: scan_inv_def registry_ok_register)
qed

lemma held_known_step:
  assumes "held_known gen heap E s"
    and "NewGuidCalls s \<le> NewGuidCalls t"
    and "\<And>a. GetLightingGuid t a = GetLightingGuid s a
            \<or> (\<exists>i<NewGuidCalls t. GetLightingGuid t a = gen i)"
  shows "held_known gen heap E t"
  unfolding held_known_def
proof
  fix a assume a: "a \<in> E"
  from assms(3) [of a] show "GetLightingGuid t a = LightingGuid (heap a)
            \<or> (\<exists>i<NewGuidCalls t. GetLightingGuid t a = gen i)"
  proof
    assume same: "GetLightingGuid t a = GetLightingGuid s a"
    from assms(1) a have "GetLightingGuid s a = LightingGuid (heap a)
            \<or> (\<exists>i<NewGuidCalls s. GetLightingGuid s a = gen i)"
      by (simp add: held_known_def)
    with same assms(2) show ?thesis by (metis less_le_trans)
  qed simp
qed

lemma held_known_SetLightingGuid:
  assumes "held_known gen heap E s"
  shows "held_known gen heap E (SetLightingGuid gen p s)"
  using assms
proof (rule held_known_step)
  show "NewGuidCalls s \<le> NewGuidCalls (SetLightingGuid gen p s)" by simp
next
  fix a
  show "GetLightingGuid (SetLightingGuid gen p s) a = GetLightingGuid s a
      \<or> (\<exists>i<NewGuidCalls (SetLightingGuid gen p s).
            GetLightingGuid (SetLightingGuid gen p s) a = gen i)"
    by (cases "a = p") (simp_all add: exI [of _ "NewGuidCalls s"])
qed

lemma held_known_reassign_incumbent:
  assumes "held_known gen heap E s"
  shows "held_known gen heap E (reassign_incumbent gen g r s)"
  using assms
proof (rule held_known_step)
  show "NewGuidCalls s \<le> NewGuidCalls (reassign_incumbent gen g r s)" by simp
next
  fix a
  show "GetLightingGuid (reassign_incumbent gen g r s) a = GetLightingGuid s a
      \<or> (\<exists>i<NewGuidCalls (reassign_incumbent gen g r s).
            GetLightingGuid (reassign_incumbent gen g r s) a = gen i)"
    by (cases "a = r") (simp_all add: exI [of _ "NewGuidCalls s"])
qed

lemma held_known_reassign_current:
  assumes "held_known gen heap E s"
  shows "held_known gen heap E (reassign_current gen p s)"
  using assms
proof (rule held_known_step)
  show "NewGuidCalls s \<le> NewGuidCalls (reassign_current gen p s)" by simp
next
  fix a
  show "GetLightingGuid (reassign_current gen p s) a = GetLightingGuid s a
      \<or> (\<exists>i<NewGuidCalls (reassign_current gen p s).
            GetLightingGuid (reassign_current gen p s) a = gen i)"
    by (cases "a = p") (simp_all add: exI [of _ "NewGuidCalls s"])
qed

lemma scan_inv_SetLightingGuid:
  assumes inv: "scan_inv gen heap E P s" and p: "p \<notin> P"
  shows "scan_inv gen heap E P (SetLightingGuid gen p s)"
proof -
  from inv have ok: "registry_ok P s" and sub: "P \<subseteq> E"
    and own: "owners_registered P s" and hk: "held_known gen heap E s"
    by (simp_all add: scan_inv_def)
  have "owners_registered P (SetLightingGuid gen p s)"
    unfolding owners_registered_def
  proof (intro ballI impI)
    fix a assume a: "a \<in> P" and "ShouldModify (objs (SetLightingGuid gen p s) a)"
    then have "ShouldModify (objs s a)" by simp
    with own a have "Guids s (GetLightingGuid s a) = Some a"
      by (simp add: owners_registered_def)
    moreover from a p have "a \<noteq> p" by auto
    ultimately show "Guids (SetLightingGuid gen p s)
        (GetLightingGuid (SetLightingGuid gen p s) a) = Some a" by simp
  qed
  with ok sub p hk show ?thesis
    by (simp add: scan_inv_def registry_ok_SetLightingGuid held_known_SetLightingGuid)
qed

lemma scan_inv_reassign_incumbent:
  assumes inv: "scan_inv gen heap E P s" and hit: "Guids s g = Some r"
    and fr: "fresh_gen gen (LightingGuid ` heap ` E) N" and c: "NewGuidCalls s < N"
  shows "scan_inv gen heap E P (reassign_incumbent gen g r s)"
proof -
  from inv have ok: "registry_ok P s" and sub: "P \<subseteq> E"
    and own: "owners_registered P s" and hk: "held_known gen heap E s"
    by (simp_all add: scan_inv_def)
  have un: "GetLightingGuid s a \<noteq> gen (NewGuidCalls s)" if "a \<in> P" for a
    using unused_guid [OF hk fr _ c, of a] that sub by auto
  have "owners_registered P (reassign_incumbent gen g r s)"
    unfolding owners_registered_def
  proof (intro ballI impI)
    fix a assume a: "a \<in> P"
      and "ShouldModify (objs (reassign_incumbent gen g r s) a)"
    then have sm: "ShouldModify (objs s a)" by simp
    show "Guids (reassign_incumbent gen g r s)
            (GetLightingGuid (reassign_incumbent gen g r s) a) = Some a"
    proof (cases "a = r")
      case True
      then show ?thesis by simp
    next
      case False
      from own a sm have reg: "Guids s (GetLightingGuid s a) = Some a"
        by (simp add: owners_registered_def)
      with hit False have "GetLightingGuid s a \<noteq> g" by auto
      with reg False un [OF a] show ?thesis by simp
    qed
  qed
  with ok sub hit hk show ?thesis
    by (simp add: scan_inv_def registry_ok_reassign_incumbent held_known_reassign_incumbent)
qed

lemma scan_inv_reassign_current:
  assumes inv: "scan_inv gen heap E P s" and p: "p \<in> E" "p \<notin> P"
    and fr: "fresh_gen gen (LightingGuid ` heap ` E) N" and c: "NewGuidCalls s < N"
  shows "scan_inv gen heap E (insert p P) (reassign_current gen p s)"
proof -
  from inv have ok: "registry_ok P s" and sub: "P \<subseteq> E"
    and own: "owners_registered P s" and hk: "held_known gen heap E s"
    by (simp_all add: scan_inv_def)
  have un: "GetLightingGuid s a \<noteq> gen (NewGuidCalls s)" if "a \<in> P" for a
    using unused_guid [OF hk fr _ c, of a] that sub by auto
  have "owners_registered (insert p P) (reassign_current gen p s)"
    unfolding owners_registered_def
  proof (intro ballI impI)
    fix a assume a: "a \<in> insert p P"
      and "ShouldModify (objs (reassign_current gen p s) a)"
    then have sm: "ShouldModify (objs s a)" by simp
    show "Guids (reassign_current gen p s)
            (GetLightingGuid (reassign_current gen p s) a) = Some a"
    proof (cases "a = p")
      case True
      then show ?thesis by simp
    next
      case False
      with a have aP: "a \<in> P" by simp
      from own aP sm have reg: "Guids s (GetLightingGuid s a) = Some a"
        by (simp add: owners_registered_def)
      with False un [OF aP] show ?thesis by simp
    qed
  qed
  with ok sub p hk show ?thesis
    by (simp add: scan_inv_def registry_ok_reassign_current held_known_reassign_current)
qed

lemma calls_FindAndFixDuplicate:
  "NewGuidCalls s \<le> NewGuidCalls (FindAndFixDuplicate gen p s)"
proof (cases "Guids s (GetLightingGuid s p)")
  case None
  then show ?thesis by (simp add: FindAndFixDuplicate_None)
next
  case (Some r)
  show ?thesis by (simp add: FindAndFixDuplicate_Some [OF Some])
qed

lemma calls_FixMaterialGuids_body:
  "NewGuidCalls s \<le> NewGuidCalls (FixMaterialGuids_body gen p s)"
proof -
  have "Suc (NewGuidCalls s) \<le>
      NewGuidCalls (FindAndFixDuplicate gen p ((SetLightingGuid gen p s)\<lparr>bMadeChanges := True\<rparr>))"
    using calls_FindAndFixDuplicate [of "(SetLightingGuid gen p s)\<lparr>bMadeChanges := True\<rparr>" gen p]
    by simp
  then show ?thesis
    by (simp add: FixMaterialGuids_body_def calls_FindAndFixDuplicate)
qed

lemma calls_FixMaterialGuids_loop:
  "NewGuidCalls s \<le> NewGuidCalls (FixMaterialGuids_loop gen xs s)"
proof (induction xs arbitrary: s)
  case Nil
  show ?case by simp
next
  case (Cons x xs)
  have "NewGuidCalls s \<le> NewGuidCalls (FixMaterialGuids_body gen x s)"
    by (rule calls_FixMaterialGuids_body)
  also have "\<dots> \<le> NewGuidCalls (FixMaterialGuids_loop gen xs (FixMaterialGuids_body gen x s))"
    by (rule Cons.IH)
  finally show ?case by simp
qed

lemma scan_inv_FindAndFixDuplicate:
  assumes inv: "scan_inv gen heap E P s" and p: "p \<in> E" "p \<notin> P"
    and fr: "fresh_gen gen (LightingGuid ` heap ` E) N"
    and le: "NewGuidCalls (FindAndFixDuplicate gen p s) \<le> N"
  shows "scan_inv gen heap E (insert p P) (FindAndFixDuplicate gen p s)"
proof (cases "Guids s (GetLightingGuid s p)")
  case None
  then show ?thesis
    using inv p by (simp add: FindAndFixDuplicate_None scan_inv_register)
next
  case (Some r)
  let ?g = "GetLightingGuid s p"
  from inv Some have guard: "GetLightingGuid s r = ?g"
    by (auto simp add: scan_inv_def dest: registry_okD)
  show ?thesis
  proof (cases "ShouldModify (objs s r)")
    case r: True
    show ?thesis
    proof (cases "ShouldModify (objs s p)")
      case True
      with r guard have eq: "FindAndFixDuplicate gen p s =
          reassign_current gen p (reassign_incumbent gen ?g r s)"
        by (simp add: FindAndFixDuplicate_Some [OF Some])
      with le have c: "NewGuidCalls s < N" "NewGuidCalls (reassign_incumbent gen ?g r s) < N"
        by simp_all
      have "scan_inv gen heap E P (reassign_incumbent gen ?g r s)"
        using inv Some fr c(1) by (rule scan_inv_reassign_incumbent)
      then show ?thesis
        unfolding eq using p fr c(2) by (rule scan_inv_reassign_current)
    next
      case False
      with r guard have eq: "FindAndFixDuplicate gen p s = reassign_incumbent gen ?g r s"
        by (simp add: FindAndFixDuplicate_Some [OF Some])
      with le have c: "NewGuidCalls s < N" by simp
      have "scan_inv gen heap E P (reassign_incumbent gen ?g r s)"
        using inv Some fr c by (rule scan_inv_reassign_incumbent)
      moreover from False have "\<not> ShouldModify (objs (reassign_incumbent gen ?g r s) p)"
        by simp
      ultimately show ?thesis
        unfolding eq using p(1) by (intro scan_inv_skip)
    qed
  next
    case r: False
    show ?thesis
    proof (cases "ShouldModify (objs s p)")
      case True
      with r have eq: "FindAndFixDuplicate gen p s = reassign_current gen p s"
        by (simp add: FindAndFixDuplicate_Some [OF Some])
      with le have c: "NewGuidCalls s < N" by simp
      show ?thesis
        unfolding eq using inv p fr c by (rule scan_inv_reassign_current)
    next
      case False
      with r have eq: "FindAndFixDuplicate gen p s = s\<lparr>bHasWarnings := True\<rparr>"
        by (simp add: FindAndFixDuplicate_Some [OF Some])
      show ?thesis
        unfolding eq using inv p(1) False by (simp add: scan_inv_skip)
    qed
  qed
qed

lemma scan_inv_FixMaterialGuids_body:
  assumes inv: "scan_inv gen heap E P s" and p: "p \<in> E" "p \<notin> P"
    and fr: "fresh_gen gen (LightingGuid ` heap ` E) N"
    and le: "NewGuidCalls (FixMaterialGuids_body gen p s) \<le> N"
  shows "scan_inv gen heap E (insert p P) (FixMaterialGuids_body gen p s)"
proof (cases "IsValid (GetLightingGuid s p)")
  case True
  then have eq: "FixMaterialGuids_body gen p s = FindAndFixDuplicate gen p s"
    by (simp add: FixMaterialGuids_body_def)
  show ?thesis
    unfolding eq using inv p fr le [unfolded eq] by (rule scan_inv_FindAndFixDuplicate)
next
  case inval: False
  show ?thesis
  proof (cases "ShouldModify (objs s p)")
    case True
    let ?t = "(SetLightingGuid gen p s)\<lparr>bMadeChanges := True\<rparr>"
    from inval True have eq: "FixMaterialGuids_body gen p s = FindAndFixDuplicate gen p ?t"
      by (simp add: FixMaterialGuids_body_def)
    have "scan_inv gen heap E P ?t"
      using inv p(2) by (simp add: scan_inv_SetLightingGuid)
    then show ?thesis
      unfolding eq using p fr le [unfolded eq] by (rule scan_inv_FindAndFixDuplicate)
  next
    case False
    with inval have eq: "FixMaterialGuids_body gen p s = s\<lparr>bHasWarnings := True\<rparr>"
      by (simp add: FixMaterialGuids_body_def)
    show ?thesis
      unfolding eq using inv p(1) False by (simp add: scan_inv_skip)
  qed
qed

lemma scan_inv_FixMaterialGuids_loop:
  assumes "scan_inv gen heap E P s" "distinct xs" "set xs \<inter> P = {}" "set xs \<subseteq> E"
    and "fresh_gen gen (LightingGuid ` heap ` E) N"
    and "NewGuidCalls (FixMaterialGuids_loop gen xs s) \<le> N"
  shows "scan_inv gen heap E (P \<union> set xs) (FixMaterialGuids_loop gen xs s)"
  using assms
proof (induction xs arbitrary: P s)
  case Nil
  then show ?case by simp
next
  case (Cons x xs)
  let ?t = "FixMaterialGuids_body gen x s"
  have "NewGuidCalls ?t \<le> NewGuidCalls (FixMaterialGuids_loop gen xs ?t)"
    by (rule calls_FixMaterialGuids_loop)
  with Cons.prems(6) have le: "NewGuidCalls ?t \<le> N" by simp
  from Cons.prems have x: "x \<in> E" "x \<notin> P" by auto
  have "scan_inv gen heap E (insert x P) ?t"
    using Cons.prems(1) x Cons.prems(5) le by (rule scan_inv_FixMaterialGuids_body)
  moreover from Cons.prems have "distinct xs" "set xs \<inter> insert x P = {}" "set xs \<subseteq> E"
    by auto
  moreover from Cons.prems(6) have "NewGuidCalls (FixMaterialGuids_loop gen xs ?t) \<le> N"
    by simp
  ultimately have "scan_inv gen heap E (insert x P \<union> set xs) (FixMaterialGuids_loop gen xs ?t)"
    using Cons.prems(5) by (intro Cons.IH)
  then show ?case by simp
qed

lemma same_at_refl [simp]: "same_at G s s"
  by (simp add: same_at_def)

lemma same_at_trans: "same_at G s t \<Longrightarrow> same_at G t u \<Longrightarrow> same_at G s u"
  by (simp add: same_at_def)

lemma same_at_flags [simp]:
  "same_at G s (t\<lparr>bHasWarnings := b\<rparr>) = same_at G s t"
  "same_at G s (t\<lparr>bMadeChanges := b\<rparr>) = same_at G s t"
  by (simp_all add: same_at_def)

lemma same_at_SetLightingGuid:
  "GetLightingGuid s p \<noteq> G \<Longrightarrow> gen (NewGuidCalls s) \<noteq> G \<Longrightarrow>
   same_at G s (SetLightingGuid gen p s)"
  by (simp add: same_at_def)

lemma same_at_register:
  "GetLightingGuid s p \<noteq> G \<Longrightarrow>
   same_at G s (s\<lparr>Guids := (Guids s)(GetLightingGuid s p \<mapsto> p)\<rparr>)"
  by (simp add: same_at_def)

lemma same_at_reassign_incumbent:
  "GetLightingGuid s r \<noteq> G \<Longrightarrow> g \<noteq> G \<Longrightarrow> gen (NewGuidCalls s) \<noteq> G \<Longrightarrow>
   same_at G s (reassign_incumbent gen g r s)"
  by (simp add: same_at_def)

lemma same_at_reassign_current:
  "GetLightingGuid s p \<noteq> G \<Longrightarrow> gen (NewGuidCalls s) \<noteq> G \<Longrightarrow>
   same_at G s (reassign_current gen p s)"
  by (simp add: same_at_def)

lemma same_at_FindAndFixDuplicate:
  assumes ok: "registry_ok P s" and ne: "GetLightingGuid s p \<noteq> G"
    and fr: "\<forall>i<N. gen i \<noteq> G" and le: "NewGuidCalls (FindAndFixDuplicate gen p s) \<le> N"
  shows "same_at G s (FindAndFixDuplicate gen p s)"
proof (cases "Guids s (GetLightingGuid s p)")
  case None
  then show ?thesis using ne by (simp add: FindAndFixDuplicate_None same_at_register)
next
  case (Some r)
  let ?g = "GetLightingGuid s p"
  from ok Some have guard: "GetLightingGuid s r = ?g"
    by (auto dest: registry_okD)
  with ne have r: "GetLightingGuid s r \<noteq> G" by simp
  show ?thesis
  proof (cases "ShouldModify (objs s r)")
    case sr: True
    show ?thesis
    proof (cases "ShouldModify (objs s p)")
      case True
      with sr guard have eq: "FindAndFixDuplicate gen p s =
          reassign_current gen p (reassign_incumbent gen ?g r s)"
        by (simp add: FindAndFixDuplicate_Some [OF Some])
      with le fr have f: "gen (NewGuidCalls s) \<noteq> G" "gen (Suc (NewGuidCalls s)) \<noteq> G"
        by simp_all
      have 1: "same_at G s (reassign_incumbent gen ?g r s)"
        using r ne f(1) by (rule same_at_reassign_incumbent)
      then have "GetLightingGuid (reassign_incumbent gen ?g r s) p \<noteq> G"
        using ne by (simp add: same_at_def)
      then have "same_at G (reassign_incumbent gen ?g r s)
          (reassign_current gen p (reassign_incumbent gen ?g r s))"
        using f(2) by (intro same_at_reassign_current) simp_all
      with 1 show ?thesis unfolding eq by (rule same_at_trans)
    next
      case False
      with sr guard have eq: "FindAndFixDuplicate gen p s = reassign_incumbent gen ?g r s"
        by (simp add: FindAndFixDuplicate_Some [OF Some])
      with le fr have f: "gen (NewGuidCalls s) \<noteq> G" by simp
      show ?thesis unfolding eq using r ne f by (rule same_at_reassign_incumbent)
    qed
  next
    case sr: False
    show ?thesis
    proof (cases "ShouldModify (objs s p)")
      case True
      with sr have eq: "FindAndFixDuplicate gen p s = reassign_current gen p s"
        by (simp add: FindAndFixDuplicate_Some [OF Some])
      with le fr have f: "gen (NewGuidCalls s) \<noteq> G" by simp
      show ?thesis unfolding eq using ne f by (rule same_at_reassign_current)
    next
      case False
      with sr have eq: "FindAndFixDuplicate gen p s = s\<lparr>bHasWarnings := True\<rparr>"
        by (simp add: FindAndFixDuplicate_Some [OF Some])
      show ?thesis unfolding eq by simp
    qed
  qed
qed

lemma same_at_FixMaterialGuids_body:
  assumes ok: "registry_ok P s" and new: "p \<notin> P" and ne: "GetLightingGuid s p \<noteq> G"
    and fr: "\<forall>i<N. gen i \<noteq> G" and le: "NewGuidCalls (FixMaterialGuids_body gen p s) \<le> N"
  shows "same_at G s (FixMaterialGuids_body gen p s)"
proof (cases "IsValid (GetLightingGuid s p)")
  case True
  then have eq: "FixMaterialGuids_body gen p s = FindAndFixDuplicate gen p s"
    by (simp add: FixMaterialGuids_body_def)
  show ?thesis
    unfolding eq using ok ne fr le [unfolded eq] by (rule same_at_FindAndFixDuplicate)
next
  case inval: False
  show ?thesis
  proof (cases "ShouldModify (objs s p)")
    case True
    let ?t = "(SetLightingGuid gen p s)\<lparr>bMadeChanges := True\<rparr>"
    from inval True have eq: "FixMaterialGuids_body gen p s = FindAndFixDuplicate gen p ?t"
      by (simp add: FixMaterialGuids_body_def)
    have "NewGuidCalls ?t \<le> NewGuidCalls (FindAndFixDuplicate gen p ?t)"
      by (rule calls_FindAndFixDuplicate)
    with le [unfolded eq] have "NewGuidCalls s < N" by simp
    with fr have f: "gen (NewGuidCalls s) \<noteq> G" by simp
    have 1: "same_at G s ?t"
      using ne f by (simp add: same_at_SetLightingGuid)
    have "registry_ok P ?t"
      using ok new by (simp add: registry_ok_SetLightingGuid)
    moreover have "GetLightingGuid ?t p \<noteq> G" using f by simp
    ultimately have "same_at G ?t (FindAndFixDuplicate gen p ?t)"
      using fr le [unfolded eq] by (rule same_at_FindAndFixDuplicate)
    with 1 show ?thesis unfolding eq by (rule same_at_trans)
  next
    case False
    with inval have eq: "FixMaterialGuids_body gen p s = s\<lparr>bHasWarnings := True\<rparr>"
      by (simp add: FixMaterialGuids_body_def)
    show ?thesis unfolding eq by simp
  qed
qed

lemma same_at_FixMaterialGuids_loop:
  assumes "registry_ok P s" "distinct xs" "set xs \<inter> P = {}"
    and "\<forall>x\<in>set xs. GetLightingGuid s x \<noteq> G"
    and "\<forall>i<N. gen i \<noteq> G" and "NewGuidCalls (FixMaterialGuids_loop gen xs s) \<le> N"
  shows "same_at G s (FixMaterialGuids_loop gen xs s)"
  using assms
proof (induction xs arbitrary: P s)
  case Nil
  show ?case by simp
next
  case (Cons x xs)
  let ?t = "FixMaterialGuids_body gen x s"
  have "NewGuidCalls ?t \<le> NewGuidCalls (FixMaterialGuids_loop gen xs ?t)"
    by (rule calls_FixMaterialGuids_loop)
  with Cons.prems(6) have le: "NewGuidCalls ?t \<le> N" by simp
  from Cons.prems have x: "x \<notin> P" "GetLightingGuid s x \<noteq> G" by auto
  have 1: "same_at G s ?t"
    using Cons.prems(1) x Cons.prems(5) le by (rule same_at_FixMaterialGuids_body)
  have ok: "registry_ok (insert x P) ?t"
    using Cons.prems(1) x(1) by (rule registry_ok_FixMaterialGuids_body)
  from Cons.prems have d: "distinct xs" "set xs \<inter> insert x P = {}" by auto
  from Cons.prems(4) 1 have ne: "\<forall>y\<in>set xs. GetLightingGuid ?t y \<noteq> G"
    by (simp add: same_at_def)
  from Cons.prems(6) have "NewGuidCalls (FixMaterialGuids_loop gen xs ?t) \<le> N" by simp
  with ok d ne Cons.prems(5) have "same_at G ?t (FixMaterialGuids_loop gen xs ?t)"
    by (intro Cons.IH)
  with 1 show ?case by (simp add: same_at_trans)
qed

subsection \<open>An identifier drawn from the generator is replaced only by another one\<close>

lemma held_known_FindAndFixDuplicate:
  assumes "held_known gen heap E s"
  shows "held_known gen heap E (FindAndFixDuplicate gen p s)"
proof (cases "Guids s (GetLightingGuid s p)")
  case None
  with assms show ?thesis by (simp add: FindAndFixDuplicate_None held_known_def)
next
  case (Some r)
  have "held_known gen heap E (s\<lparr>bHasWarnings := True\<rparr>)"
    using assms by (simp add: held_known_def)
  with assms show ?thesis
    by (simp add: FindAndFixDuplicate_Some [OF Some] held_known_reassign_incumbent
        held_known_reassign_current)
qed

lemma held_known_FixMaterialGuids_body:
  assumes "held_known gen heap E s"
  shows "held_known gen heap E (FixMaterialGuids_body gen p s)"
proof -
  have "held_known gen heap E (s\<lparr>bHasWarnings := True\<rparr>)"
    using assms by (simp add: held_known_def)
  moreover have "held_known gen heap E ((SetLightingGuid gen p s)\<lparr>bMadeChanges := True\<rparr>)"
    using held_known_SetLightingGuid [OF assms, of p] by (simp add: held_known_def)
  ultimately show ?thesis
    using assms by (simp add: FixMaterialGuids_body_def held_known_FindAndFixDuplicate)
qed

lemma held_known_FixMaterialGuids_loop:
  "held_known gen heap E s \<Longrightarrow> held_known gen heap E (FixMaterialGuids_loop gen xs s)"
  by (induction xs arbitrary: s) (simp_all add: held_known_FixMaterialGuids_body)

lemma drawn_FixMaterialGuids_loop:
  assumes "i < NewGuidCalls s" and "GetLightingGuid s a = gen i"
  shows "\<exists>j<NewGuidCalls (FixMaterialGuids_loop gen xs s).
           GetLightingGuid (FixMaterialGuids_loop gen xs s) a = gen j"
proof -
  let ?heap = "\<lambda>_ :: ptr. \<lparr>PathName = [], LightingGuid = gen i\<rparr>"
  have "held_known gen ?heap {a} s"
    using assms by (simp add: held_known_def)
  then have "held_known gen ?heap {a} (FixMaterialGuids_loop gen xs s)"
    by (rule held_known_FixMaterialGuids_loop)
  then have "GetLightingGuid (FixMaterialGuids_loop gen xs s) a = gen i
      \<or> (\<exists>j<NewGuidCalls (FixMaterialGuids_loop gen xs s).
            GetLightingGuid (FixMaterialGuids_loop gen xs s) a = gen j)"
    by (simp add: held_known_def)
  moreover have "i < NewGuidCalls (FixMaterialGuids_loop gen xs s)"
    using assms(1) calls_FixMaterialGuids_loop [of s gen xs] by simp
  ultimately show ?thesis by blast
qed

lemma FixMaterialGuids_owners_distinct:
  assumes "distinct enum"
    and "fresh_gen gen (LightingGuid ` heap ` set enum)
           (NewGuidCalls (FixMaterialGuids_loop gen enum (dedup_init heap)))"
    and "a \<in> set enum" and "b \<in> set enum" and "a \<noteq> b"
    and "ShouldModify (heap a)" and "ShouldModify (heap b)"
  shows "GetLightingGuid (FixMaterialGuids_loop gen enum (dedup_init heap)) a
       \<noteq> GetLightingGuid (FixMaterialGuids_loop gen enum (dedup_init heap)) b"
proof -
  let ?s = "FixMaterialGuids_loop gen enum (dedup_init heap)"
  have "scan_inv gen heap (set enum) ({} \<union> set enum) ?s"
    using scan_inv_init assms(1) _ _ assms(2)
    by (rule scan_inv_FixMaterialGuids_loop) simp_all
  then have own: "owners_registered (set enum) ?s"
    by (simp add: scan_inv_def)
  have "ShouldModify (objs ?s a)" "ShouldModify (objs ?s b)"
    using assms(6,7) by (simp_all add: dedup_init_def)
  with own assms(3,4) have "Guids ?s (GetLightingGuid ?s a) = Some a"
    "Guids ?s (GetLightingGuid ?s b) = Some b"
    by (simp_all add: owners_registered_def)
  with assms(5) show ?thesis by auto
qed

lemma FixMaterialGuids_body_valid:
  "IsValid (GetLightingGuid s p) \<Longrightarrow>
   FixMaterialGuids_body gen p s = FindAndFixDuplicate gen p s"
  by (simp add: FixMaterialGuids_body_def)

lemma shared_pair_ordered:
  assumes d: "distinct (as @ a # bs @ b # cs)"
    and frG: "\<forall>i<N. gen i \<noteq> G"
    and le: "NewGuidCalls (FixMaterialGuids_loop gen (as @ a # bs @ b # cs) (dedup_init heap)) \<le> N"
    and sm: "ShouldModify (heap a)" "ShouldModify (heap b)"
    and g: "LightingGuid (heap a) = G" "LightingGuid (heap b) = G" "IsValid G"
    and others: "\<forall>c\<in>set (as @ bs @ cs). LightingGuid (heap c) \<noteq> G"
  shows "(\<exists>i<NewGuidCalls (FixMaterialGuids_loop gen (as @ a # bs @ b # cs) (dedup_init heap)).
            GetLightingGuid (FixMaterialGuids_loop gen (as @ a # bs @ b # cs) (dedup_init heap)) a
              = gen i)
       \<and> (\<exists>j<NewGuidCalls (FixMaterialGuids_loop gen (as @ a # bs @ b # cs) (dedup_init heap)).
            GetLightingGuid (FixMaterialGuids_loop gen (as @ a # bs @ b # cs) (dedup_init heap)) b
              = gen j)"
proof -
  define s0 where "s0 = dedup_init heap"
  define s1 where "s1 = FixMaterialGuids_loop gen as s0"
  define s2 where "s2 = FixMaterialGuids_body gen a s1"
  define s3 where "s3 = FixMaterialGuids_loop gen bs s2"
  define s4 where "s4 = FixMaterialGuids_body gen b s3"
  define s5 where "s5 = FixMaterialGuids_loop gen cs s4"
  have fin: "FixMaterialGuids_loop gen (as @ a # bs @ b # cs) (dedup_init heap) = s5"
    by (simp add: FixMaterialGuids_loop_append s0_def s1_def s2_def s3_def s4_def s5_def)
  have c45: "NewGuidCalls s4 \<le> NewGuidCalls s5"
    unfolding s5_def by (rule calls_FixMaterialGuids_loop)
  have c34: "NewGuidCalls s3 \<le> NewGuidCalls s4"
    unfolding s4_def by (rule calls_FixMaterialGuids_body)
  have c23: "NewGuidCalls s2 \<le> NewGuidCalls s3"
    unfolding s3_def by (rule calls_FixMaterialGuids_loop)
  have c12: "NewGuidCalls s1 \<le> NewGuidCalls s2"
    unfolding s2_def by (rule calls_FixMaterialGuids_body)
  from le fin have c5: "NewGuidCalls s5 \<le> N" by simp
  have init: "GetLightingGuid s0 x = LightingGuid (heap x)" for x
    by (simp add: s0_def dedup_init_def GetLightingGuid_def)
  have sm0: "ShouldModify (objs s0 x) = ShouldModify (heap x)" for x
    by (simp add: s0_def dedup_init_def)
  \<comment> \<open>the objects before \<open>a\<close>\<close>
  have ok0: "registry_ok {} s0" unfolding s0_def by (rule registry_ok_init)
  have "same_at G s0 s1"
    unfolding s1_def
  proof (rule same_at_FixMaterialGuids_loop [OF ok0 _ _ _ frG])
    show "distinct as" using d by simp
    show "set as \<inter> {} = {}" by simp
    show "\<forall>x\<in>set as. GetLightingGuid s0 x \<noteq> G" using others by (simp add: init)
    show "NewGuidCalls (FixMaterialGuids_loop gen as s0) \<le> N"
      using c12 c23 c34 c45 c5 by (simp add: s1_def)
  qed
  then have k1: "Guids s1 G = None"
    and h1: "\<And>x. (GetLightingGuid s1 x = G) = (LightingGuid (heap x) = G)"
    by (simp_all add: same_at_def init) (simp add: s0_def dedup_init_def)
  have ok1: "registry_ok (set as) s1"
    using registry_ok_FixMaterialGuids_loop [OF ok0, of as gen] d by (simp add: s1_def)
  \<comment> \<open>the iteration for \<open>a\<close>\<close>
  have a1: "GetLightingGuid s1 a = G" using h1 g(1) by simp
  have s2_eq: "s2 = s1\<lparr>Guids := (Guids s1)(G \<mapsto> a)\<rparr>"
    using a1 k1 g(3)
    by (simp add: s2_def FixMaterialGuids_body_valid FindAndFixDuplicate_None)
  have k2: "Guids s2 G = Some a"
    and h2: "\<And>x. (GetLightingGuid s2 x = G) = (LightingGuid (heap x) = G)"
    by (simp_all add: s2_eq h1)
  have ok2: "registry_ok (insert a (set as)) s2"
    unfolding s2_def using ok1 d by (intro registry_ok_FixMaterialGuids_body) auto
  \<comment> \<open>the objects between \<open>a\<close> and \<open>b\<close>\<close>
  have "same_at G s2 s3"
    unfolding s3_def
  proof (rule same_at_FixMaterialGuids_loop [OF ok2 _ _ _ frG])
    show "distinct bs" using d by simp
    show "set bs \<inter> insert a (set as) = {}" using d by auto
    show "\<forall>x\<in>set bs. GetLightingGuid s2 x \<noteq> G" using others by (simp add: h2)
    show "NewGuidCalls (FixMaterialGuids_loop gen bs s2) \<le> N"
      using c34 c45 c5 by (simp add: s3_def)
  qed
  then have k3: "Guids s3 G = Some a"
    and h3: "\<And>x. (GetLightingGuid s3 x = G) = (LightingGuid (heap x) = G)"
    by (simp_all add: same_at_def k2 h2)
  \<comment> \<open>the iteration for \<open>b\<close>\<close>
  have a3: "GetLightingGuid s3 a = G" and b3: "GetLightingGuid s3 b = G"
    using h3 g by simp_all
  have sm3: "ShouldModify (objs s3 a)" "ShouldModify (objs s3 b)"
    using sm by (simp_all add: s3_def s2_def s1_def sm0)
  from d have ab: "a \<noteq> b" by auto
  have s4_eq: "s4 = reassign_current gen b (reassign_incumbent gen G a s3)"
    using a3 b3 k3 sm3 g(3)
    by (simp add: s4_def FixMaterialGuids_body_valid FindAndFixDuplicate_Some [of s3 b a])
  have a4: "GetLightingGuid s4 a = gen (NewGuidCalls s3)"
    and b4: "GetLightingGuid s4 b = gen (Suc (NewGuidCalls s3))"
    and c4: "NewGuidCalls s4 = Suc (Suc (NewGuidCalls s3))"
    using ab by (simp_all add: s4_eq)
  \<comment> \<open>the objects after \<open>b\<close>\<close>
  have "\<exists>i<NewGuidCalls s5. GetLightingGuid s5 a = gen i"
    unfolding s5_def using _ a4
    by (rule drawn_FixMaterialGuids_loop) (simp add: c4)
  moreover have "\<exists>j<NewGuidCalls s5. GetLightingGuid s5 b = gen j"
    unfolding s5_def using _ b4
    by (rule drawn_FixMaterialGuids_loop) (simp add: c4)
  ultimately show ?thesis unfolding fin by simp
qed

lemma two_elements_split:
  assumes "a \<in> set xs" "b \<in> set xs" "a \<noteq> b"
  shows "(\<exists>as bs cs. xs = as @ a # bs @ b # cs) \<or> (\<exists>as bs cs. xs = as @ b # bs @ a # cs)"
proof -
  from assms(1) obtain ys zs where xs: "xs = ys @ a # zs"
    by (auto dest: split_list)
  with assms(2,3) consider "b \<in> set ys" | "b \<in> set zs" by auto
  then show ?thesis
  proof cases
    case 1
    then obtain us vs where "ys = us @ b # vs" by (auto dest: split_list)
    with xs have "xs = us @ b # vs @ a # zs" by simp
    then show ?thesis by blast
  next
    case 2
    then obtain us vs where "zs = us @ b # vs" by (auto dest: split_list)
    with xs have "xs = ys @ a # us @ b # vs" by simp
    then show ?thesis by blast
  qed
qed

lemma shared_pair_drawn:
  assumes d: "distinct enum"
    and frG: "\<forall>i<N. gen i \<noteq> G"
    and le: "NewGuidCalls (FixMaterialGuids_loop gen enum (dedup_init heap)) \<le> N"
    and mem: "a \<in> set enum" "b \<in> set enum" "a \<noteq> b"
    and sm: "ShouldModify (heap a)" "ShouldModify (heap b)"
    and g: "LightingGuid (heap a) = G" "LightingGuid (heap b) = G" "IsValid G"
    and others: "\<forall>c\<in>set enum. c \<noteq> a \<and> c \<noteq> b \<longrightarrow> LightingGuid (heap c) \<noteq> G"
  shows "(\<exists>i<NewGuidCalls (FixMaterialGuids_loop gen enum (dedup_init heap)).
            GetLightingGuid (FixMaterialGuids_loop gen enum (dedup_init heap)) a = gen i)
       \<and> (\<exists>j<NewGuidCalls (FixMaterialGuids_loop gen enum (dedup_init heap)).
            GetLightingGuid (FixMaterialGuids_loop gen enum (dedup_init heap)) b = gen j)"
proof -
  from two_elements_split [OF mem] show ?thesis
  proof (elim disjE exE)
    fix as bs cs assume e: "enum = as @ a # bs @ b # cs"
    with d others have "\<forall>c\<in>set (as @ bs @ cs). LightingGuid (heap c) \<noteq> G" by auto
    with shared_pair_ordered [OF d [unfolded e] frG le [unfolded e] sm g]
    show ?thesis unfolding e by blast
  next
    fix as bs cs assume e: "enum = as @ b # bs @ a # cs"
    with d others have "\<forall>c\<in>set (as @ bs @ cs). LightingGuid (heap c) \<noteq> G" by auto
    with shared_pair_ordered [OF d [unfolded e] frG le [unfolded e] sm(2,1) g(2,1,3)]
    show ?thesis unfolding e by blast
  qed
qed

subsection \<open>A texture without an identifier in the texture scan\<close>

lemma untouched_FindAndFixDuplicate:
  assumes "p \<noteq> T" and "\<forall>k. Guids s k \<noteq> Some T"
  shows "objs (FindAndFixDuplicate gen p s) T = objs s T
       \<and> (\<forall>k. Guids (FindAndFixDuplicate gen p s) k \<noteq> Some T)"
proof (cases "Guids s (GetLightingGuid s p)")
  case None
  with assms show ?thesis by (simp add: FindAndFixDuplicate_None)
next
  case (Some r)
  with assms(2) have "r \<noteq> T" by auto
  with assms show ?thesis
    by (simp add: FindAndFixDuplicate_Some [OF Some] objs_reassign_incumbent
        objs_reassign_current)
qed

lemma untouched_FixTextureGuids_body:
  assumes "\<not> IsValid (GetLightingGuid s T)" and "\<forall>k. Guids s k \<noteq> Some T"
  shows "objs (FixTextureGuids_body gen p s) T = objs s T
       \<and> (\<forall>k. Guids (FixTextureGuids_body gen p s) k \<noteq> Some T)"
proof (cases "IsValid (GetLightingGuid s p)")
  case True
  with assms(1) have "p \<noteq> T" by auto
  then show ?thesis
    using assms(2) True untouched_FindAndFixDuplicate [of p T s gen]
    by (simp add: FixTextureGuids_body_def)
next
  case False
  with assms(2) show ?thesis by (simp add: FixTextureGuids_body_def)
qed

lemma untouched_FixTextureGuids_loop:
  assumes "\<not> IsValid (GetLightingGuid s T)" and "\<forall>k. Guids s k \<noteq> Some T"
  shows "objs (FixTextureGuids_loop gen xs s) T = objs s T
       \<and> (\<forall>k. Guids (FixTextureGuids_loop gen xs s) k \<noteq> Some T)"
  using assms
proof (induction xs arbitrary: s)
  case Nil
  then show ?case by simp
next
  case (Cons x xs)
  let ?t = "FixTextureGuids_body gen x s"
  from untouched_FixTextureGuids_body [OF Cons.prems, of gen x]
  have t: "objs ?t T = objs s T" "\<forall>k. Guids ?t k \<noteq> Some T" by simp_all
  with Cons.prems(1) have "\<not> IsValid (GetLightingGuid ?t T)"
    by (simp add: GetLightingGuid_def)
  from Cons.IH [OF this t(2)] t(1) show ?case by simp
qed

lemma warned_FindAndFixDuplicate:
  "bHasWarnings s \<Longrightarrow> bHasWarnings (FindAndFixDuplicate gen p s)"
proof (cases "Guids s (GetLightingGuid s p)")
  case None
  assume "bHasWarnings s"
  with None show ?thesis by (simp add: FindAndFixDuplicate_None)
next
  case (Some r)
  assume "bHasWarnings s"
  then show ?thesis by (simp add: FindAndFixDuplicate_Some [OF Some])
qed

lemma warned_FixTextureGuids_loop:
  "bHasWarnings s \<Longrightarrow> bHasWarnings (FixTextureGuids_loop gen xs s)"
  by (induction xs arbitrary: s)
     (simp_all add: FixTextureGuids_body_def warned_FindAndFixDuplicate)

lemma invalid_texture_warns:
  assumes "T \<in> set xs" and "\<not> IsValid (GetLightingGuid s T)" and "\<forall>k. Guids s k \<noteq> Some T"
  shows "bHasWarnings (FixTextureGuids_loop gen xs s)"
  using assms
proof (induction xs arbitrary: s)
  case Nil
  then show ?case by simp
next
  case (Cons x xs)
  show ?case
  proof (cases "x = T")
    case True
    with Cons.prems(2) have "bHasWarnings (FixTextureGuids_body gen x s)"
      by (simp add: FixTextureGuids_body_def)
    then show ?thesis by (simp add: warned_FixTextureGuids_loop)
  next
    case False
    let ?t = "FixTextureGuids_body gen x s"
    from untouched_FixTextureGuids_body [OF Cons.prems(2,3), of gen x]
    have t: "objs ?t T = objs s T" "\<forall>k. Guids ?t k \<noteq> Some T" by simp_all
    with Cons.prems(2) have "\<not> IsValid (GetLightingGuid ?t T)"
      by (simp add: GetLightingGuid_def)
    moreover from False Cons.prems(1) have "T \<in> set xs" by simp
    ultimately show ?thesis using t(2) Cons.IH [of ?t] by simp
  qed
qed

subsection \<open>Every enumerated object gets its iteration\<close>

lemma warning_commutes_FindAndFixDuplicate:
  "FindAndFixDuplicate gen p (s\<lparr>bHasWarnings := True\<rparr>) =
     (FindAndFixDuplicate gen p s)\<lparr>bHasWarnings := True\<rparr>"
proof (cases "Guids s (GetLightingGuid s p)")
  case None
  then have "Guids (s\<lparr>bHasWarnings := True\<rparr>) (GetLightingGuid (s\<lparr>bHasWarnings := True\<rparr>) p) = None"
    by simp
  from FindAndFixDuplicate_None [OF this] FindAndFixDuplicate_None [OF None]
  show ?thesis by simp
next
  case (Some r)
  then have "Guids (s\<lparr>bHasWarnings := True\<rparr>) (GetLightingGuid (s\<lparr>bHasWarnings := True\<rparr>) p) = Some r"
    by simp
  from FindAndFixDuplicate_Some [OF this] FindAndFixDuplicate_Some [OF Some]
  show ?thesis
    by (simp add: reassign_current_def reassign_incumbent_def SetLightingGuid_def)
qed

lemma warning_commutes_FixMaterialGuids_body:
  "FixMaterialGuids_body gen p (s\<lparr>bHasWarnings := True\<rparr>) =
     (FixMaterialGuids_body gen p s)\<lparr>bHasWarnings := True\<rparr>"
proof -
  have "(SetLightingGuid gen p (s\<lparr>bHasWarnings := True\<rparr>))\<lparr>bMadeChanges := True\<rparr> =
      ((SetLightingGuid gen p s)\<lparr>bMadeChanges := True\<rparr>)\<lparr>bHasWarnings := True\<rparr>"
    by (simp add: SetLightingGuid_def)
  then show ?thesis
    by (simp add: FixMaterialGuids_body_def warning_commutes_FindAndFixDuplicate)
qed

lemma warning_commutes_FixTextureGuids_body:
  "FixTextureGuids_body gen p (s\<lparr>bHasWarnings := True\<rparr>) =
     (FixTextureGuids_body gen p s)\<lparr>bHasWarnings := True\<rparr>"
  by (simp add: FixTextureGuids_body_def warning_commutes_FindAndFixDuplicate)

lemma warning_commutes_FixEmptyTextureGuids_body:
  "FixEmptyTextureGuids_body gen p (s\<lparr>bHasWarnings := True\<rparr>) =
     (FixEmptyTextureGuids_body gen p s)\<lparr>bHasWarnings := True\<rparr>"
  by (simp add: FixEmptyTextureGuids_body_def SetLightingGuid_def GetLightingGuid_def)

lemma warning_commutes_FixMaterialGuids_loop:
  "FixMaterialGuids_loop gen xs (s\<lparr>bHasWarnings := True\<rparr>) =
     (FixMaterialGuids_loop gen xs s)\<lparr>bHasWarnings := True\<rparr>"
  by (induction xs arbitrary: s) (simp_all add: warning_commutes_FixMaterialGuids_body)

lemma warning_commutes_FixTextureGuids_loop:
  "FixTextureGuids_loop gen xs (s\<lparr>bHasWarnings := True\<rparr>) =
     (FixTextureGuids_loop gen xs s)\<lparr>bHasWarnings := True\<rparr>"
  by (induction xs arbitrary: s) (simp_all add: warning_commutes_FixTextureGuids_body)

lemma warning_commutes_FixEmptyTextureGuids_loop:
  "FixEmptyTextureGuids_loop gen xs (s\<lparr>bHasWarnings := True\<rparr>) =
     (FixEmptyTextureGuids_loop gen xs s)\<lparr>bHasWarnings := True\<rparr>"
  by (induction xs arbitrary: s) (simp_all add: warning_commutes_FixEmptyTextureGuids_body)

lemma drawn_FixEmptyTextureGuids_body:
  assumes "\<exists>i<NewGuidCalls s. GetLightingGuid s a = gen i"
  shows "\<exists>i<NewGuidCalls (FixEmptyTextureGuids_body gen p s).
           GetLightingGuid (FixEmptyTextureGuids_body gen p s) a = gen i"
proof -
  from assms obtain i where i: "i < NewGuidCalls s" "GetLightingGuid s a = gen i" by auto
  let ?t = "(SetLightingGuid gen p s)\<lparr>bMadeChanges := True\<rparr>"
  have "\<exists>j<NewGuidCalls ?t. GetLightingGuid ?t a = gen j"
  proof (cases "a = p")
    case True
    then show ?thesis by (simp add: exI [of _ "NewGuidCalls s"])
  next
    case False
    with i show ?thesis by (simp add: exI [of _ i])
  qed
  with assms show ?thesis
    by (simp add: FixEmptyTextureGuids_body_def)
qed

lemma drawn_FixEmptyTextureGuids_loop:
  "\<exists>i<NewGuidCalls s. GetLightingGuid s a = gen i \<Longrightarrow>
   \<exists>i<NewGuidCalls (FixEmptyTextureGuids_loop gen xs s).
      GetLightingGuid (FixEmptyTextureGuids_loop gen xs s) a = gen i"
proof (induction xs arbitrary: s)
  case Nil
  then show ?case by simp
next
  case (Cons x xs)
  from Cons.IH [OF drawn_FixEmptyTextureGuids_body [OF Cons.prems, of x]]
  show ?case by simp
qed

lemma repaired_FixEmptyTextureGuids_loop:
  assumes "T \<in> set xs" and "\<not> IsValid (GetLightingGuid s T)" and "ShouldModify (objs s T)"
  shows "\<exists>i<NewGuidCalls (FixEmptyTextureGuids_loop gen xs s).
           GetLightingGuid (FixEmptyTextureGuids_loop gen xs s) T = gen i"
  using assms
proof (induction xs arbitrary: s)
  case Nil
  then show ?case by simp
next
  case (Cons x xs)
  let ?t = "FixEmptyTextureGuids_body gen x s"
  show ?case
  proof (cases "x = T")
    case True
    with Cons.prems have "?t = (SetLightingGuid gen T s)\<lparr>bMadeChanges := True\<rparr>"
      by (simp add: FixEmptyTextureGuids_body_def)
    then have "\<exists>i<NewGuidCalls ?t. GetLightingGuid ?t T = gen i"
      by (simp add: exI [of _ "NewGuidCalls s"])
    from drawn_FixEmptyTextureGuids_loop [OF this, of xs] show ?thesis by simp
  next
    case False
    then have "objs ?t T = objs s T"
      by (simp add: FixEmptyTextureGuids_body_def objs_SetLightingGuid)
    with Cons.prems have "\<not> IsValid (GetLightingGuid ?t T)" "ShouldModify (objs ?t T)"
      by (simp_all add: GetLightingGuid_def)
    moreover from False Cons.prems(1) have "T \<in> set xs" by simp
    ultimately show ?thesis using Cons.IH [of ?t] by simp
  qed
qed

lemma drawn_FindAndFixDuplicate:
  assumes "i < NewGuidCalls s" and "GetLightingGuid s a = gen i"
  shows "\<exists>j<NewGuidCalls (FindAndFixDuplicate gen p s).
           GetLightingGuid (FindAndFixDuplicate gen p s) a = gen j"
proof -
  let ?heap = "\<lambda>_ :: ptr. \<lparr>PathName = [], LightingGuid = gen i\<rparr>"
  have "held_known gen ?heap {a} s"
    using assms by (simp add: held_known_def)
  then have "held_known gen ?heap {a} (FindAndFixDuplicate gen p s)"
    by (rule held_known_FindAndFixDuplicate)
  then have "GetLightingGuid (FindAndFixDuplicate gen p s) a = gen i
      \<or> (\<exists>j<NewGuidCalls (FindAndFixDuplicate gen p s).
            GetLightingGuid (FindAndFixDuplicate gen p s) a = gen j)"
    by (simp add: held_known_def)
  moreover have "i < NewGuidCalls (FindAndFixDuplicate gen p s)"
    using assms(1) calls_FindAndFixDuplicate [of s gen p] by simp
  ultimately show ?thesis by blast
qed

lemma untouched_FixMaterialGuids_body:
  assumes "p \<noteq> T" and "\<forall>k. Guids s k \<noteq> Some T"
  shows "objs (FixMaterialGuids_body gen p s) T = objs s T
       \<and> (\<forall>k. Guids (FixMaterialGuids_body gen p s) k \<noteq> Some T)"
proof -
  let ?t = "(SetLightingGuid gen p s)\<lparr>bMadeChanges := True\<rparr>"
  have "objs ?t T = objs s T" "\<forall>k. Guids ?t k \<noteq> Some T"
    using assms by (simp_all add: objs_SetLightingGuid)
  with untouched_FindAndFixDuplicate [OF assms(1), of ?t gen]
  have "objs (FindAndFixDuplicate gen p ?t) T = objs s T
       \<and> (\<forall>k. Guids (FindAndFixDuplicate gen p ?t) k \<noteq> Some T)"
    by simp
  with untouched_FindAndFixDuplicate [OF assms, of gen] assms(2)
  show ?thesis by (simp add: FixMaterialGuids_body_def)
qed

lemma repaired_FixMaterialGuids_loop:
  assumes "T \<in> set xs" and "\<not> IsValid (GetLightingGuid s T)" and "ShouldModify (objs s T)"
    and "\<forall>k. Guids s k \<noteq> Some T"
  shows "\<exists>i<NewGuidCalls (FixMaterialGuids_loop gen xs s).
           GetLightingGuid (FixMaterialGuids_loop gen xs s) T = gen i"
  using assms
proof (induction xs arbitrary: s)
  case Nil
  then show ?case by simp
next
  case (Cons x xs)
  let ?t = "FixMaterialGuids_body gen x s"
  show ?case
  proof (cases "x = T")
    case True
    let ?u = "(SetLightingGuid gen T s)\<lparr>bMadeChanges := True\<rparr>"
    from True Cons.prems have eq: "?t = FindAndFixDuplicate gen T ?u"
      by (simp add: FixMaterialGuids_body_def)
    have "NewGuidCalls s < NewGuidCalls ?u" "GetLightingGuid ?u T = gen (NewGuidCalls s)"
      by simp_all
    then have "\<exists>j<NewGuidCalls ?t. GetLightingGuid ?t T = gen j"
      unfolding eq by (rule drawn_FindAndFixDuplicate)
    then obtain j where "j < NewGuidCalls ?t" "GetLightingGuid ?t T = gen j" by auto
    then show ?thesis
      using drawn_FixMaterialGuids_loop [where i = j and s = ?t and a = T and gen = gen
          and xs = xs]
      by simp
  next
    case False
    from untouched_FixMaterialGuids_body [OF False Cons.prems(4), of gen]
    have t: "objs ?t T = objs s T" "\<forall>k. Guids ?t k \<noteq> Some T" by simp_all
    with Cons.prems have "\<not> IsValid (GetLightingGuid ?t T)" "ShouldModify (objs ?t T)"
      by (simp_all add: GetLightingGuid_def)
    moreover from False Cons.prems(1) have "T \<in> set xs" by simp
    ultimately show ?thesis using t(2) Cons.IH [of ?t] by simp
  qed
qed

subsection \<open>Valid identifiers in the scan for empty identifiers\<close>

lemma FixEmptyTextureGuids_loop_valid:
  "\<forall>p\<in>set xs. IsValid (GetLightingGuid s p) \<Longrightarrow> FixEmptyTextureGuids_loop gen xs s = s"
  by (induction xs arbitrary: s) (simp_all add: FixEmptyTextureGuids_body_def)

subsection \<open>Objects that are refused end with a warning\<close>

lemma warned_FixMaterialGuids_body:
  "bHasWarnings s \<Longrightarrow> bHasWarnings (FixMaterialGuids_body gen p s)"
  by (simp add: FixMaterialGuids_body_def warned_FindAndFixDuplicate)

lemma warned_FixMaterialGuids_loop:
  "bHasWarnings s \<Longrightarrow> bHasWarnings (FixMaterialGuids_loop gen xs s)"
  by (induction xs arbitrary: s) (simp_all add: warned_FixMaterialGuids_body)

lemma warned_FixEmptyTextureGuids_loop:
  "bHasWarnings s \<Longrightarrow> bHasWarnings (FixEmptyTextureGuids_loop gen xs s)"
  by (induction xs arbitrary: s) (simp_all add: FixEmptyTextureGuids_body_def)

lemma locked_material_warns:
  assumes "T \<in> set xs" and "\<not> IsValid (GetLightingGuid s T)" and "\<not> ShouldModify (objs s T)"
  shows "bHasWarnings (FixMaterialGuids_loop gen xs s)"
  using assms
proof (induction xs arbitrary: s)
  case Nil
  then show ?case by simp
next
  case (Cons x xs)
  let ?t = "FixMaterialGuids_body gen x s"
  show ?case
  proof (cases "x = T")
    case True
    with Cons.prems have "bHasWarnings ?t"
      by (simp add: FixMaterialGuids_body_def)
    then show ?thesis by (simp add: warned_FixMaterialGuids_loop)
  next
    case False
    from Cons.prems(3) have "objs ?t T = objs s T"
      by (rule FixMaterialGuids_body_keeps)
    with Cons.prems have "\<not> IsValid (GetLightingGuid ?t T)" "\<not> ShouldModify (objs ?t T)"
      by (simp_all add: GetLightingGuid_def)
    moreover from False Cons.prems(1) have "T \<in> set xs" by simp
    ultimately show ?thesis using Cons.IH [of ?t] by simp
  qed
qed

lemma locked_texture_warns:
  assumes "T \<in> set xs" and "\<not> IsValid (GetLightingGuid s T)" and "\<not> ShouldModify (objs s T)"
  shows "bHasWarnings (FixEmptyTextureGuids_loop gen xs s)"
  using assms
proof (induction xs arbitrary: s)
  case Nil
  then show ?case by simp
next
  case (Cons x xs)
  let ?t = "FixEmptyTextureGuids_body gen x s"
  show ?case
  proof (cases "x = T")
    case True
    with Cons.prems have "bHasWarnings ?t"
      by (simp add: FixEmptyTextureGuids_body_def)
    then show ?thesis by (simp add: warned_FixEmptyTextureGuids_loop)
  next
    case False
    from Cons.prems(3) have "objs ?t T = objs s T"
      by (rule FixEmptyTextureGuids_body_keeps)
    with Cons.prems have "\<not> IsValid (GetLightingGuid ?t T)" "\<not> ShouldModify (objs ?t T)"
      by (simp_all add: GetLightingGuid_def)
    moreover from False Cons.prems(1) have "T \<in> set xs" by simp
    ultimately show ?thesis using Cons.IH [of ?t] by simp
  qed
qed

lemma valid_FixEmptyTextureGuids_loop:
  "IsValid (GetLightingGuid s T) \<Longrightarrow> objs (FixEmptyTextureGuids_loop gen xs s) T = objs s T"
proof (induction xs arbitrary: s)
  case Nil
  show ?case by simp
next
  case (Cons x xs)
  let ?t = "FixEmptyTextureGuids_body gen x s"
  have t: "objs ?t T = objs s T"
    using Cons.prems
    by (cases "x = T") (simp_all add: FixEmptyTextureGuids_body_def objs_SetLightingGuid)
  with Cons.prems have "IsValid (GetLightingGuid ?t T)"
    by (simp add: GetLightingGuid_def)
  from Cons.IH [OF this] t show ?case by simp
qed

subsection \<open>The collision block in the texture scan\<close>

lemma calls_FixTextureGuids_body:
  "NewGuidCalls s \<le> NewGuidCalls (FixTextureGuids_body gen p s)"
  by (simp add: FixTextureGuids_body_def calls_FindAndFixDuplicate)

lemma calls_FixTextureGuids_loop:
  "NewGuidCalls s \<le> NewGuidCalls (FixTextureGuids_loop gen xs s)"
proof (induction xs arbitrary: s)
  case Nil
  show ?case by simp
next
  case (Cons x xs)
  have "NewGuidCalls s \<le> NewGuidCalls (FixTextureGuids_body gen x s)"
    by (rule calls_FixTextureGuids_body)
  also have "\<dots> \<le> NewGuidCalls (FixTextureGuids_loop gen xs (FixTextureGuids_body gen x s))"
    by (rule Cons.IH)
  finally show ?case by simp
qed

lemma unvisited_unregistered:
  "registry_ok P s \<Longrightarrow> y \<notin> P \<Longrightarrow> \<forall>k. Guids s k \<noteq> Some y"
  by (auto dest: registry_okD)

lemma unvisited_FixTextureGuids_body:
  assumes "registry_ok P s" and "y \<notin> P" and "y \<noteq> p"
  shows "objs (FixTextureGuids_body gen p s) y = objs s y"
proof -
  from assms(1,2) have "\<forall>k. Guids s k \<noteq> Some y" by (rule unvisited_unregistered)
  with untouched_FindAndFixDuplicate [of p y s gen] assms(3)
  show ?thesis by (simp add: FixTextureGuids_body_def)
qed

lemma scan_inv_FixTextureGuids_body:
  assumes inv: "scan_inv gen heap E P s" and p: "p \<in> E" "p \<notin> P"
    and fr: "fresh_gen gen (LightingGuid ` heap ` E) N"
    and le: "NewGuidCalls (FixTextureGuids_body gen p s) \<le> N"
  shows "scan_inv gen heap E (if IsValid (GetLightingGuid s p) then insert p P else P)
           (FixTextureGuids_body gen p s)"
proof (cases "IsValid (GetLightingGuid s p)")
  case True
  then have eq: "FixTextureGuids_body gen p s = FindAndFixDuplicate gen p s"
    by (simp add: FixTextureGuids_body_def)
  have "scan_inv gen heap E (insert p P) (FindAndFixDuplicate gen p s)"
    using inv p fr le [unfolded eq] by (rule scan_inv_FindAndFixDuplicate)
  with True show ?thesis by (simp add: eq)
next
  case False
  with inv show ?thesis by (simp add: FixTextureGuids_body_def)
qed

lemma scan_inv_FixTextureGuids_loop:
  assumes "scan_inv gen heap E P s" "distinct xs" "set xs \<inter> P = {}" "set xs \<subseteq> E"
    and "fresh_gen gen (LightingGuid ` heap ` E) N"
    and "NewGuidCalls (FixTextureGuids_loop gen xs s) \<le> N"
  shows "scan_inv gen heap E (P \<union> {x \<in> set xs. IsValid (GetLightingGuid s x)})
           (FixTextureGuids_loop gen xs s)"
  using assms
proof (induction xs arbitrary: P s)
  case Nil
  then show ?case by simp
next
  case (Cons x xs)
  let ?t = "FixTextureGuids_body gen x s"
  let ?P = "if IsValid (GetLightingGuid s x) then insert x P else P"
  have "NewGuidCalls ?t \<le> NewGuidCalls (FixTextureGuids_loop gen xs ?t)"
    by (rule calls_FixTextureGuids_loop)
  with Cons.prems(6) have le: "NewGuidCalls ?t \<le> N" by simp
  from Cons.prems have x: "x \<in> E" "x \<notin> P" by auto
  have inv: "scan_inv gen heap E ?P ?t"
    using Cons.prems(1) x Cons.prems(5) le by (rule scan_inv_FixTextureGuids_body)
  from Cons.prems(1) have ok: "registry_ok P s" by (simp add: scan_inv_def)
  have same: "GetLightingGuid ?t y = GetLightingGuid s y" if "y \<in> set xs" for y
  proof -
    from that Cons.prems have "y \<notin> P" "y \<noteq> x" by auto
    with ok have "objs ?t y = objs s y" by (intro unvisited_FixTextureGuids_body)
    then show ?thesis by (simp add: GetLightingGuid_def)
  qed
  from Cons.prems have "distinct xs" "set xs \<inter> ?P = {}" "set xs \<subseteq> E" by auto
  moreover from Cons.prems(6) have "NewGuidCalls (FixTextureGuids_loop gen xs ?t) \<le> N"
    by simp
  ultimately have "scan_inv gen heap E (?P \<union> {y \<in> set xs. IsValid (GetLightingGuid ?t y)})
      (FixTextureGuids_loop gen xs ?t)"
    using inv Cons.prems(5) by (intro Cons.IH)
  moreover have "?P \<union> {y \<in> set xs. IsValid (GetLightingGuid ?t y)} =
      P \<union> {y \<in> set (x # xs). IsValid (GetLightingGuid s y)}"
    using same by auto
  ultimately show ?case by simp
qed

lemma FixMaterialGuids_owner_registered:
  assumes "distinct enum"
    and "fresh_gen gen (LightingGuid ` heap ` set enum)
           (NewGuidCalls (FixMaterialGuids_loop gen enum (dedup_init heap)))"
    and "a \<in> set enum" and "ShouldModify (heap a)"
  shows "Guids (FixMaterialGuids_loop gen enum (dedup_init heap))
           (GetLightingGuid (FixMaterialGuids_loop gen enum (dedup_init heap)) a) = Some a"
proof -
  let ?s = "FixMaterialGuids_loop gen enum (dedup_init heap)"
  have "scan_inv gen heap (set enum) ({} \<union> set enum) ?s"
    using scan_inv_init assms(1) _ _ assms(2)
    by (rule scan_inv_FixMaterialGuids_loop) simp_all
  then have own: "owners_registered (set enum) ?s"
    by (simp add: scan_inv_def)
  have "ShouldModify (objs ?s a)"
    using assms(4) by (simp add: dedup_init_def)
  with own assms(3) show ?thesis
    by (simp add: owners_registered_def)
qed

lemma FixTextureGuids_owner_registered:
  assumes "distinct enum"
    and "fresh_gen gen (LightingGuid ` heap ` set enum)
           (NewGuidCalls (FixTextureGuids_loop gen enum (dedup_init heap)))"
    and "a \<in> set enum" and "ShouldModify (heap a)" and "IsValid (LightingGuid (heap a))"
  shows "Guids (FixTextureGuids_loop gen enum (dedup_init heap))
           (GetLightingGuid (FixTextureGuids_loop gen enum (dedup_init heap)) a) = Some a"
proof -
  let ?init = "dedup_init heap"
  let ?s = "FixTextureGuids_loop gen enum ?init"
  let ?Q = "{} \<union> {x \<in> set enum. IsValid (GetLightingGuid ?init x)}"
  have "scan_inv gen heap (set enum) ?Q ?s"
    using scan_inv_init assms(1) _ _ assms(2)
    by (rule scan_inv_FixTextureGuids_loop) simp_all
  then have own: "owners_registered ?Q ?s"
    by (simp add: scan_inv_def)
  have "a \<in> ?Q"
    using assms(3,5) by (simp add: dedup_init_def GetLightingGuid_def)
  moreover have "ShouldModify (objs ?s a)"
    using assms(4) by (simp add: dedup_init_def)
  ultimately show ?thesis
    using own unfolding owners_registered_def by blast
qed

subsection \<open>Objects that may not be modified in the collision block\<close>

lemma paths_kept_steps [simp]:
  "paths_kept heap (FindAndFixDuplicate gen p s) = paths_kept heap s"
  "paths_kept heap (SetLightingGuid gen p s) = paths_kept heap s"
  "paths_kept heap (FixMaterialGuids_body gen p s) = paths_kept heap s"
  "paths_kept heap (FixTextureGuids_body gen p s) = paths_kept heap s"
  "paths_kept heap (s\<lparr>bHasWarnings := b\<rparr>) = paths_kept heap s"
  "paths_kept heap (s\<lparr>bMadeChanges := b\<rparr>) = paths_kept heap s"
  by (simp_all add: paths_kept_def)

lemma paths_kept_init: "paths_kept heap (dedup_init heap)"
  by (simp add: paths_kept_def dedup_init_def)

lemma settled_warned: "bHasWarnings s \<Longrightarrow> settled gen heap E x s"
  by (simp add: settled_def)

lemma settled_made [simp]:
  "settled gen heap E x (s\<lparr>bMadeChanges := b\<rparr>) = settled gen heap E x s"
  by (simp add: settled_def)

lemma settled_cases:
  assumes "settled gen heap E x s"
  obtains (registered) "Guids s (LightingGuid (heap x)) = Some x"
    | (warned) "bHasWarnings s"
    | (moved) r i where "r \<in> E" "r \<noteq> x" "ShouldModify (heap r)"
        "LightingGuid (heap r) = LightingGuid (heap x)"
        "i < NewGuidCalls s" "GetLightingGuid s r = gen i"
  using assms unfolding settled_def by blast

lemma settled_moved:
  assumes "r \<in> E" "r \<noteq> x" "ShouldModify (heap r)"
    "LightingGuid (heap r) = LightingGuid (heap x)"
    "\<exists>i<NewGuidCalls s. GetLightingGuid s r = gen i"
  shows "settled gen heap E x s"
  using assms unfolding settled_def by blast

lemma settled_SetLightingGuid:
  assumes "settled gen heap E x s"
  shows "settled gen heap E x (SetLightingGuid gen p s)"
  using assms
proof (cases rule: settled_cases)
  case registered
  then show ?thesis by (simp add: settled_def)
next
  case warned
  then show ?thesis by (simp add: settled_def)
next
  case (moved r i)
  have "\<exists>j<NewGuidCalls (SetLightingGuid gen p s).
      GetLightingGuid (SetLightingGuid gen p s) r = gen j"
  proof (cases "r = p")
    case True
    then show ?thesis by (simp add: exI [of _ "NewGuidCalls s"])
  next
    case False
    with moved(5,6) show ?thesis by (simp add: exI [of _ i])
  qed
  with moved(1-4) show ?thesis by (rule settled_moved)
qed

lemma settled_FindAndFixDuplicate:
  assumes st: "settled gen heap E x s"
    and inv: "scan_inv gen heap E P s" and pk: "paths_kept heap s"
    and x: "x \<in> E" "\<not> ShouldModify (heap x)"
    and fr: "fresh_gen gen (LightingGuid ` heap ` E) N"
    and le: "NewGuidCalls (FindAndFixDuplicate gen p s) \<le> N"
  shows "settled gen heap E x (FindAndFixDuplicate gen p s)"
  using st
proof (cases rule: settled_cases)
  case warned
  then show ?thesis by (simp add: settled_warned warned_FindAndFixDuplicate)
next
  case (moved r i)
  from drawn_FindAndFixDuplicate [OF moved(5), of r gen p] moved(6)
  have "\<exists>j<NewGuidCalls (FindAndFixDuplicate gen p s).
      GetLightingGuid (FindAndFixDuplicate gen p s) r = gen j" by simp
  with moved(1-4) show ?thesis by (rule settled_moved)
next
  case registered
  let ?g = "LightingGuid (heap x)"
  from x(1) have "?g \<in> LightingGuid ` heap ` E" by simp
  with fr have frg: "gen n \<noteq> ?g" if "n < N" for n
    using that by (auto simp add: fresh_gen_def)
  from pk x(2) have nx: "\<not> ShouldModify (objs s x)" by (simp add: paths_kept_def)
  show ?thesis
  proof (cases "Guids s (GetLightingGuid s p)")
    case None
    with registered have "GetLightingGuid s p \<noteq> ?g" by auto
    with registered show ?thesis
      by (simp add: FindAndFixDuplicate_None [OF None] settled_def)
  next
    case (Some r)
    note eq = FindAndFixDuplicate_Some [OF Some, of gen]
    show ?thesis
    proof (cases "GetLightingGuid s r = GetLightingGuid s p \<and> ShouldModify (objs s r)")
      case inc: True
      with nx have "r \<noteq> x" by auto
      with Some registered have ne: "GetLightingGuid s p \<noteq> ?g" by auto
      show ?thesis
      proof (cases "ShouldModify (objs s p)")
        case True
        with inc eq le have "Suc (Suc (NewGuidCalls s)) \<le> N" by simp
        then have "gen (NewGuidCalls s) \<noteq> ?g" "gen (Suc (NewGuidCalls s)) \<noteq> ?g"
          by (simp_all add: frg)
        with True inc ne registered show ?thesis
          by (simp add: eq settled_def)
      next
        case False
        with inc eq le have "Suc (NewGuidCalls s) \<le> N" by simp
        then have "gen (NewGuidCalls s) \<noteq> ?g" by (simp add: frg)
        with False inc ne registered show ?thesis
          by (simp add: eq settled_def)
      qed
    next
      case noinc: False
      show ?thesis
      proof (cases "ShouldModify (objs s p)")
        case True
        with noinc eq le have "Suc (NewGuidCalls s) \<le> N" by auto
        then have "gen (NewGuidCalls s) \<noteq> ?g" by (simp add: frg)
        with True noinc registered show ?thesis
          by (auto simp add: eq settled_def)
      next
        case False
        with noinc show ?thesis by (auto simp add: eq settled_def)
      qed
    qed
  qed
qed

lemma settles_FindAndFixDuplicate:
  assumes inv: "scan_inv gen heap E P s" and pk: "paths_kept heap s"
    and x: "x \<in> E" "\<not> ShouldModify (heap x)"
    and gx: "GetLightingGuid s x = LightingGuid (heap x)"
    and fr: "fresh_gen gen (LightingGuid ` heap ` E) N"
    and le: "NewGuidCalls (FindAndFixDuplicate gen x s) \<le> N"
  shows "settled gen heap E x (FindAndFixDuplicate gen x s)"
proof (cases "Guids s (GetLightingGuid s x)")
  case None
  then show ?thesis
    by (simp add: FindAndFixDuplicate_None [OF None] settled_def gx)
next
  case (Some r)
  let ?g = "LightingGuid (heap x)"
  note eq = FindAndFixDuplicate_Some [OF Some, of gen]
  from pk x(2) have nx: "\<not> ShouldModify (objs s x)" by (simp add: paths_kept_def)
  from inv have ok: "registry_ok P s" and sub: "P \<subseteq> E" and hk: "held_known gen heap E s"
    by (simp_all add: scan_inv_def)
  from ok Some have r: "r \<in> P" "GetLightingGuid s r = ?g"
    by (auto dest: registry_okD simp add: gx)
  show ?thesis
  proof (cases "ShouldModify (objs s r)")
    case True
    with nx r(2) gx have eq': "FindAndFixDuplicate gen x s =
        reassign_incumbent gen (GetLightingGuid s x) r s"
      by (simp add: eq)
    with le have c: "NewGuidCalls s < N" by simp
    from True nx have "r \<noteq> x" by auto
    moreover from r(1) sub have rE: "r \<in> E" by auto
    moreover from True pk have "ShouldModify (heap r)" by (simp add: paths_kept_def)
    moreover have "LightingGuid (heap r) = ?g"
    proof (rule ccontr)
      assume "LightingGuid (heap r) \<noteq> ?g"
      with hk rE r(2) obtain i where i: "i < NewGuidCalls s" "?g = gen i"
        by (auto simp add: held_known_def)
      from x(1) have "?g \<in> LightingGuid ` heap ` E" by simp
      moreover from i c have "i < N" by simp
      ultimately show False using fr i(2) by (auto simp add: fresh_gen_def)
    qed
    moreover have "\<exists>i<NewGuidCalls (FindAndFixDuplicate gen x s).
        GetLightingGuid (FindAndFixDuplicate gen x s) r = gen i"
      by (simp add: eq' exI [of _ "NewGuidCalls s"])
    ultimately show ?thesis by (intro settled_moved)
  next
    case False
    with nx have "FindAndFixDuplicate gen x s = s\<lparr>bHasWarnings := True\<rparr>"
      by (simp add: eq)
    then show ?thesis by (simp add: settled_warned)
  qed
qed

lemma settled_FixTextureGuids_body:
  assumes st: "settled gen heap E x s"
    and inv: "scan_inv gen heap E P s" and pk: "paths_kept heap s"
    and x: "x \<in> E" "\<not> ShouldModify (heap x)"
    and fr: "fresh_gen gen (LightingGuid ` heap ` E) N"
    and le: "NewGuidCalls (FixTextureGuids_body gen p s) \<le> N"
  shows "settled gen heap E x (FixTextureGuids_body gen p s)"
proof (cases "IsValid (GetLightingGuid s p)")
  case True
  then have eq: "FixTextureGuids_body gen p s = FindAndFixDuplicate gen p s"
    by (simp add: FixTextureGuids_body_def)
  show ?thesis
    unfolding eq using st inv pk x fr le [unfolded eq] by (rule settled_FindAndFixDuplicate)
next
  case False
  then show ?thesis by (simp add: FixTextureGuids_body_def settled_warned)
qed

lemma settles_FixTextureGuids_body:
  assumes inv: "scan_inv gen heap E P s" and pk: "paths_kept heap s"
    and x: "x \<in> E" "\<not> ShouldModify (heap x)"
    and gx: "GetLightingGuid s x = LightingGuid (heap x)"
    and fr: "fresh_gen gen (LightingGuid ` heap ` E) N"
    and le: "NewGuidCalls (FixTextureGuids_body gen x s) \<le> N"
  shows "settled gen heap E x (FixTextureGuids_body gen x s)"
proof (cases "IsValid (GetLightingGuid s x)")
  case True
  then have eq: "FixTextureGuids_body gen x s = FindAndFixDuplicate gen x s"
    by (simp add: FixTextureGuids_body_def)
  show ?thesis
    unfolding eq using inv pk x gx fr le [unfolded eq] by (rule settles_FindAndFixDuplicate)
next
  case False
  then show ?thesis by (simp add: FixTextureGuids_body_def settled_warned)
qed

lemma settled_FixMaterialGuids_body:
  assumes st: "settled gen heap E x s"
    and inv: "scan_inv gen heap E P s" and pk: "paths_kept heap s"
    and x: "x \<in> E" "\<not> ShouldModify (heap x)" and p: "p \<notin> P"
    and fr: "fresh_gen gen (LightingGuid ` heap ` E) N"
    and le: "NewGuidCalls (FixMaterialGuids_body gen p s) \<le> N"
  shows "settled gen heap E x (FixMaterialGuids_body gen p s)"
proof (cases "IsValid (GetLightingGuid s p)")
  case True
  then have eq: "FixMaterialGuids_body gen p s = FindAndFixDuplicate gen p s"
    by (simp add: FixMaterialGuids_body_def)
  show ?thesis
    unfolding eq using st inv pk x fr le [unfolded eq] by (rule settled_FindAndFixDuplicate)
next
  case inval: False
  show ?thesis
  proof (cases "ShouldModify (objs s p)")
    case True
    let ?t = "(SetLightingGuid gen p s)\<lparr>bMadeChanges := True\<rparr>"
    from inval True have eq: "FixMaterialGuids_body gen p s = FindAndFixDuplicate gen p ?t"
      by (simp add: FixMaterialGuids_body_def)
    have "settled gen heap E x ?t"
      using st by (simp add: settled_SetLightingGuid)
    moreover have "scan_inv gen heap E P ?t"
      using inv p by (simp add: scan_inv_SetLightingGuid)
    moreover have "paths_kept heap ?t" using pk by simp
    ultimately show ?thesis
      unfolding eq using x fr le [unfolded eq] by (rule settled_FindAndFixDuplicate)
  next
    case False
    with inval show ?thesis by (simp add: FixMaterialGuids_body_def settled_warned)
  qed
qed

lemma settles_FixMaterialGuids_body:
  assumes inv: "scan_inv gen heap E P s" and pk: "paths_kept heap s"
    and x: "x \<in> E" "\<not> ShouldModify (heap x)"
    and gx: "GetLightingGuid s x = LightingGuid (heap x)"
    and fr: "fresh_gen gen (LightingGuid ` heap ` E) N"
    and le: "NewGuidCalls (FixMaterialGuids_body gen x s) \<le> N"
  shows "settled gen heap E x (FixMaterialGuids_body gen x s)"
proof (cases "IsValid (GetLightingGuid s x)")
  case True
  then have eq: "FixMaterialGuids_body gen x s = FindAndFixDuplicate gen x s"
    by (simp add: FixMaterialGuids_body_def)
  show ?thesis
    unfolding eq using inv pk x gx fr le [unfolded eq] by (rule settles_FindAndFixDuplicate)
next
  case False
  moreover from pk x(2) have "\<not> ShouldModify (objs s x)" by (simp add: paths_kept_def)
  ultimately show ?thesis by (simp add: FixMaterialGuids_body_def settled_warned)
qed

lemma settled_FixTextureGuids_loop:
  assumes "settled gen heap E x s" "scan_inv gen heap E P s" "paths_kept heap s"
    and "x \<in> E" "\<not> ShouldModify (heap x)"
    and "distinct xs" "set xs \<inter> P = {}" "set xs \<subseteq> E"
    and "fresh_gen gen (LightingGuid ` heap ` E) N"
    and "NewGuidCalls (FixTextureGuids_loop gen xs s) \<le> N"
  shows "settled gen heap E x (FixTextureGuids_loop gen xs s)"
  using assms
proof (induction xs arbitrary: P s)
  case Nil
  then show ?case by simp
next
  case (Cons y xs)
  let ?t = "FixTextureGuids_body gen y s"
  let ?P = "if IsValid (GetLightingGuid s y) then insert y P else P"
  have "NewGuidCalls ?t \<le> NewGuidCalls (FixTextureGuids_loop gen xs ?t)"
    by (rule calls_FixTextureGuids_loop)
  with Cons.prems(10) have le: "NewGuidCalls ?t \<le> N" by simp
  from Cons.prems have y: "y \<in> E" "y \<notin> P" by auto
  have "settled gen heap E x ?t"
    using Cons.prems(1,2,3,4,5,9) le by (rule settled_FixTextureGuids_body)
  moreover have "scan_inv gen heap E ?P ?t"
    using Cons.prems(2) y Cons.prems(9) le by (rule scan_inv_FixTextureGuids_body)
  moreover have "paths_kept heap ?t" using Cons.prems(3) by simp
  moreover from Cons.prems have "distinct xs" "set xs \<inter> ?P = {}" "set xs \<subseteq> E" by auto
  moreover from Cons.prems(10) have "NewGuidCalls (FixTextureGuids_loop gen xs ?t) \<le> N"
    by simp
  ultimately have "settled gen heap E x (FixTextureGuids_loop gen xs ?t)"
    using Cons.prems(4,5,9) by (intro Cons.IH)
  then show ?case by simp
qed

lemma settles_FixTextureGuids_loop:
  assumes "x \<in> set xs" "GetLightingGuid s x = LightingGuid (heap x)"
    and "scan_inv gen heap E P s" "paths_kept heap s"
    and "x \<in> E" "\<not> ShouldModify (heap x)"
    and "distinct xs" "set xs \<inter> P = {}" "set xs \<subseteq> E"
    and "fresh_gen gen (LightingGuid ` heap ` E) N"
    and "NewGuidCalls (FixTextureGuids_loop gen xs s) \<le> N"
  shows "settled gen heap E x (FixTextureGuids_loop gen xs s)"
  using assms
proof (induction xs arbitrary: P s)
  case Nil
  then show ?case by simp
next
  case (Cons y xs)
  let ?t = "FixTextureGuids_body gen y s"
  let ?P = "if IsValid (GetLightingGuid s y) then insert y P else P"
  have "NewGuidCalls ?t \<le> NewGuidCalls (FixTextureGuids_loop gen xs ?t)"
    by (rule calls_FixTextureGuids_loop)
  with Cons.prems(11) have le: "NewGuidCalls ?t \<le> N" by simp
  from Cons.prems have y: "y \<in> E" "y \<notin> P" by auto
  have inv: "scan_inv gen heap E ?P ?t"
    using Cons.prems(3) y Cons.prems(10) le by (rule scan_inv_FixTextureGuids_body)
  have pk: "paths_kept heap ?t" using Cons.prems(4) by simp
  from Cons.prems have rest: "distinct xs" "set xs \<inter> ?P = {}" "set xs \<subseteq> E" by auto
  from Cons.prems(11) have le': "NewGuidCalls (FixTextureGuids_loop gen xs ?t) \<le> N"
    by simp
  show ?case
  proof (cases "y = x")
    case True
    have "settled gen heap E x ?t"
      unfolding True
      using Cons.prems(3,4,5,6,2,10) le [unfolded True]
      by (rule settles_FixTextureGuids_body)
    then have "settled gen heap E x (FixTextureGuids_loop gen xs ?t)"
      using inv pk Cons.prems(5,6) rest Cons.prems(10) le'
      by (rule settled_FixTextureGuids_loop)
    then show ?thesis by simp
  next
    case False
    with Cons.prems(1) have "x \<in> set xs" by simp
    moreover have "GetLightingGuid ?t x = LightingGuid (heap x)"
    proof -
      from Cons.prems(4,6) have "\<not> ShouldModify (objs s x)" by (simp add: paths_kept_def)
      then have "objs ?t x = objs s x" by (rule FixTextureGuids_body_keeps)
      with Cons.prems(2) show ?thesis by (simp add: GetLightingGuid_def)
    qed
    ultimately have "settled gen heap E x (FixTextureGuids_loop gen xs ?t)"
      using inv pk Cons.prems(5,6) rest Cons.prems(10) le' by (intro Cons.IH)
    then show ?thesis by simp
  qed
qed

lemma settled_FixMaterialGuids_loop:
  assumes "settled gen heap E x s" "scan_inv gen heap E P s" "paths_kept heap s"
    and "x \<in> E" "\<not> ShouldModify (heap x)"
    and "distinct xs" "set xs \<inter> P = {}" "set xs \<subseteq> E"
    and "fresh_gen gen (LightingGuid ` heap ` E) N"
    and "NewGuidCalls (FixMaterialGuids_loop gen xs s) \<le> N"
  shows "settled gen heap E x (FixMaterialGuids_loop gen xs s)"
  using assms
proof (induction xs arbitrary: P s)
  case Nil
  then show ?case by simp
next
  case (Cons y xs)
  let ?t = "FixMaterialGuids_body gen y s"
  have "NewGuidCalls ?t \<le> NewGuidCalls (FixMaterialGuids_loop gen xs ?t)"
    by (rule calls_FixMaterialGuids_loop)
  with Cons.prems(10) have le: "NewGuidCalls ?t \<le> N" by simp
  from Cons.prems have y: "y \<in> E" "y \<notin> P" by auto
  have "settled gen heap E x ?t"
    using Cons.prems(1,2,3,4,5) y(2) Cons.prems(9) le by (rule settled_FixMaterialGuids_body)
  moreover have "scan_inv gen heap E (insert y P) ?t"
    using Cons.prems(2) y Cons.prems(9) le by (rule scan_inv_FixMaterialGuids_body)
  moreover have "paths_kept heap ?t" using Cons.prems(3) by simp
  moreover from Cons.prems have "distinct xs" "set xs \<inter> insert y P = {}" "set xs \<subseteq> E"
    by auto
  moreover from Cons.prems(10) have "NewGuidCalls (FixMaterialGuids_loop gen xs ?t) \<le> N"
    by simp
  ultimately have "settled gen heap E x (FixMaterialGuids_loop gen xs ?t)"
    using Cons.prems(4,5,9) by (intro Cons.IH)
  then show ?case by simp
qed

lemma settles_FixMaterialGuids_loop:
  assumes "x \<in> set xs" "GetLightingGuid s x = LightingGuid (heap x)"
    and "scan_inv gen heap E P s" "paths_kept heap s"
    and "x \<in> E" "\<not> ShouldModify (heap x)"
    and "distinct xs" "set xs \<inter> P = {}" "set xs \<subseteq> E"
    and "fresh_gen gen (LightingGuid ` heap ` E) N"
    and "NewGuidCalls (FixMaterialGuids_loop gen xs s) \<le> N"
  shows "settled gen heap E x (FixMaterialGuids_loop gen xs s)"
  using assms
proof (induction xs arbitrary: P s)
  case Nil
  then show ?case by simp
next
  case (Cons y xs)
  let ?t = "FixMaterialGuids_body gen y s"
  have "NewGuidCalls ?t \<le> NewGuidCalls (FixMaterialGuids_loop gen xs ?t)"
    by (rule calls_FixMaterialGuids_loop)
  with Cons.prems(11) have le: "NewGuidCalls ?t \<le> N" by simp
  from Cons.prems have y: "y \<in> E" "y \<notin> P" by auto
  have inv: "scan_inv gen heap E (insert y P) ?t"
    using Cons.prems(3) y Cons.prems(10) le by (rule scan_inv_FixMaterialGuids_body)
  have pk: "paths_kept heap ?t" using Cons.prems(4) by simp
  from Cons.prems have rest: "distinct xs" "set xs \<inter> insert y P = {}" "set xs \<subseteq> E"
    by auto
  from Cons.prems(11) have le': "NewGuidCalls (FixMaterialGuids_loop gen xs ?t) \<le> N"
    by simp
  show ?case
  proof (cases "y = x")
    case True
    have "settled gen heap E x ?t"
      unfolding True
      using Cons.prems(3,4,5,6,2,10) le [unfolded True]
      by (rule settles_FixMaterialGuids_body)
    then have "settled gen heap E x (FixMaterialGuids_loop gen xs ?t)"
      using inv pk Cons.prems(5,6) rest Cons.prems(10) le'
      by (rule settled_FixMaterialGuids_loop)
    then show ?thesis by simp
  next
    case False
    with Cons.prems(1) have "x \<in> set xs" by simp
    moreover have "GetLightingGuid ?t x = LightingGuid (heap x)"
    proof -
      from Cons.prems(4,6) have "\<not> ShouldModify (objs s x)" by (simp add: paths_kept_def)
      then have "objs ?t x = objs s x" by (rule FixMaterialGuids_body_keeps)
      with Cons.prems(2) show ?thesis by (simp add: GetLightingGuid_def)
    qed
    ultimately have "settled gen heap E x (FixMaterialGuids_loop gen xs ?t)"
      using inv pk Cons.prems(5,6) rest Cons.prems(10) le' by (intro Cons.IH)
    then show ?thesis by simp
  qed
qed

text \<open>The outcome for an object that may not be modified, read off the final state.\<close>

lemma settled_outcome:
  assumes st: "settled gen heap E x s" and x: "x \<in> E"
    and fr: "fresh_gen gen (LightingGuid ` heap ` E) (NewGuidCalls s)"
  shows "Guids s (LightingGuid (heap x)) = Some x \<or> bHasWarnings s
       \<or> (\<exists>r\<in>E. r \<noteq> x \<and> ShouldModify (heap r)
             \<and> LightingGuid (heap r) = LightingGuid (heap x)
             \<and> GetLightingGuid s r \<noteq> LightingGuid (heap r))"
  using st
proof (cases rule: settled_cases)
  case registered
  then show ?thesis by simp
next
  case warned
  then show ?thesis by simp
next
  case (moved r i)
  from moved(1) have "LightingGuid (heap r) \<in> LightingGuid ` heap ` E" by simp
  with fr moved(5) have "gen i \<noteq> LightingGuid (heap r)"
    by (auto simp add: fresh_gen_def)
  with moved show ?thesis by auto
qed

lemma FixMaterialGuids_settles:
  assumes "distinct enum"
    and "fresh_gen gen (LightingGuid ` heap ` set enum)
           (NewGuidCalls (FixMaterialGuids_loop gen enum (dedup_init heap)))"
    and "x \<in> set enum" and "\<not> ShouldModify (heap x)"
  shows "settled gen heap (set enum) x (FixMaterialGuids_loop gen enum (dedup_init heap))"
  using assms(3) _ scan_inv_init paths_kept_init assms(3,4,1) _ _ assms(2)
  by (rule settles_FixMaterialGuids_loop) (simp_all add: dedup_init_def GetLightingGuid_def)

lemma FixTextureGuids_settles:
  assumes "distinct enum"
    and "fresh_gen gen (LightingGuid ` heap ` set enum)
           (NewGuidCalls (FixTextureGuids_loop gen enum (dedup_init heap)))"
    and "x \<in> set enum" and "\<not> ShouldModify (heap x)"
  shows "settled gen heap (set enum) x (FixTextureGuids_loop gen enum (dedup_init heap))"
  using assms(3) _ scan_inv_init paths_kept_init assms(3,4,1) _ _ assms(2)
  by (rule settles_FixTextureGuids_loop) (simp_all add: dedup_init_def GetLightingGuid_def)

subsection \<open>Facts about the example inputs\<close>

lemma heapPP_calls: "NewGuidCalls (fst (FixMaterialGuids gen_example heapPP [0, 1])) = 2"
  by (simp add: run_defs heapPP_def)

lemma fresh_gen_example_2: "fresh_gen gen_example {7} 2"
proof -
  have c: "i = 0 \<or> i = 1" if "i < 2" for i :: nat
    using that by auto
  show ?thesis
    unfolding fresh_gen_def gen_example_def by (auto dest!: c)
qed

lemma fresh_gen_example_7_9: "fresh_gen gen_example {7, 9} 2"
proof -
  have c: "i = 0 \<or> i = 1" if "i < 2" for i :: nat
    using that by auto
  show ?thesis
    unfolding fresh_gen_def gen_example_def by (auto dest!: c)
qed

lemma fresh_gen_example_0_7: "n \<le> 3 \<Longrightarrow> fresh_gen gen_example {0, 7} n"
proof -
  assume n: "n \<le> 3"
  have c: "i = 0 \<or> i = 1 \<or> i = 2" if "i < n" for i :: nat
    using that n by auto
  show ?thesis
    unfolding fresh_gen_def gen_example_def by (auto dest!: c)
qed

lemma heapRun_calls:
  "NewGuidCalls (fst (FixMaterialGuids gen_example heapRun [0, 1, 2, 3, 4])) = 3"
  "NewGuidCalls (fst (FixTextureGuids gen_example heapRun [0, 1, 2, 3, 4])) = 2"
  by (simp_all add: run_defs heapRun_def)

lemma heapRun_guids: "LightingGuid ` heapRun ` set [0, 1, 2, 3, 4] = {0, 7}"
  by (auto simp add: heapRun_def heap_of_def)

section \<open>Report synthesis\<close>

text \<open>
  C6. In each of the three operations the text shown is a function of the two flags of
  the final state alone, and each of the four combinations of the flags selects one
  fixed string, the four being pairwise different; the strings of the three operations
  differ only in the words naming the kind of asset and of defect.
\<close>

theorem report_synthesis:
  "snd (FixMaterialGuids gen heap enum) =
     FixMaterialGuids_DialogText (bMadeChanges (fst (FixMaterialGuids gen heap enum)))
       (bHasWarnings (fst (FixMaterialGuids gen heap enum)))
   \<and> snd (FixTextureGuids gen heap enum) =
     FixTextureGuids_DialogText (bMadeChanges (fst (FixTextureGuids gen heap enum)))
       (bHasWarnings (fst (FixTextureGuids gen heap enum)))
   \<and> snd (FixEmptyTextureGuids gen heap enum) =
     FixEmptyTextureGuids_DialogText (bMadeChanges (fst (FixEmptyTextureGuids gen heap enum)))
       (bHasWarnings (fst (FixEmptyTextureGuids gen heap enum)))
   \<and> FixMaterialGuids_DialogText False False = ''No duplicate material GUIDs found.''
   \<and> FixMaterialGuids_DialogText True False =
       ''At least one material GUID has been changed. Use save all to save these changes.''
   \<and> FixMaterialGuids_DialogText False True =
       ''No material GUID has been changed, but there are some unresolvable issues (Please refer to log).''
   \<and> FixMaterialGuids_DialogText True True =
       ''At least one material GUID has been changed, but there are some unresolvable issues (Please refer to log). Use save all to save these changes.''
   \<and> FixTextureGuids_DialogText False False = ''No duplicate texture GUIDs found.''
   \<and> FixTextureGuids_DialogText True False =
       ''At least one texture GUID has been changed. Use save all to save these changes.''
   \<and> FixTextureGuids_DialogText False True =
       ''No texture GUID has been changed, but there are some unresolvable issues (Please refer to log).''
   \<and> FixTextureGuids_DialogText True True =
       ''At least one texture GUID has been changed, but there are some unresolvable issues (Please refer to log). Use save all to save these changes.''
   \<and> FixEmptyTextureGuids_DialogText False False = ''No empty texture GUIDs found.''
   \<and> FixEmptyTextureGuids_DialogText True False =
       ''At least one texture GUID has been changed. Use save all to save these changes.''
   \<and> FixEmptyTextureGuids_DialogText False True =
       ''No texture GUID has been changed, but there are some unresolvable issues (Please refer to log).''
   \<and> FixEmptyTextureGuids_DialogText True True =
       ''At least one texture GUID has been changed, but there are some unresolvable issues (Please refer to log). Use save all to save these changes.''
   \<and> distinct [FixMaterialGuids_DialogText False False, FixMaterialGuids_DialogText True False,
         FixMaterialGuids_DialogText False True, FixMaterialGuids_DialogText True True]
   \<and> distinct [FixTextureGuids_DialogText False False, FixTextureGuids_DialogText True False,
         FixTextureGuids_DialogText False True, FixTextureGuids_DialogText True True]
   \<and> distinct [FixEmptyTextureGuids_DialogText False False,
         FixEmptyTextureGuids_DialogText True False,
         FixEmptyTextureGuids_DialogText False True, FixEmptyTextureGuids_DialogText True True]"
  by (simp add: FixMaterialGuids_def FixTextureGuids_def FixEmptyTextureGuids_def Let_def
      FixMaterialGuids_DialogText_def FixTextureGuids_DialogText_def
      FixEmptyTextureGuids_DialogText_def)

section \<open>The policy gate\<close>

text \<open>
  C1. An object whose path does not start with \<open>/Game/\<close> is not accepted by
  \<open>ShouldModify\<close>, and none of the three operations changes it: after
  \<open>FixMaterialGuids\<close>, \<open>FixTextureGuids\<close> and \<open>FixEmptyTextureGuids\<close> the store
  holds the same object at its pointer, identifier included, whatever the enumeration,
  the other objects and the generator are.
\<close>

theorem policy_gate:
  assumes "\<not> StartsWith (PathName (heap p)) ''/Game/''"
  shows "\<not> ShouldModify (heap p)
       \<and> objs (fst (FixMaterialGuids gen heap enum)) p = heap p
       \<and> objs (fst (FixTextureGuids gen heap enum)) p = heap p
       \<and> objs (fst (FixEmptyTextureGuids gen heap enum)) p = heap p"
proof -
  have nm: "\<not> ShouldModify (heap p)"
    using assms by (simp add: ShouldModify_eq)
  have "objs (FixMaterialGuids_loop gen enum (dedup_init heap)) p = heap p"
    using FixMaterialGuids_loop_keeps [of "dedup_init heap" p gen enum] nm
    by (simp add: dedup_init_def)
  moreover have "objs (FixTextureGuids_loop gen enum (dedup_init heap)) p = heap p"
    using FixTextureGuids_loop_keeps [of "dedup_init heap" p gen enum] nm
    by (simp add: dedup_init_def)
  moreover have "objs (FixEmptyTextureGuids_loop gen enum (scan_init heap)) p = heap p"
    using FixEmptyTextureGuids_loop_keeps [of "scan_init heap" p gen enum] nm
    by (simp add: scan_init_def)
  ultimately show ?thesis
    using nm
    by (simp add: FixMaterialGuids_def FixTextureGuids_def FixEmptyTextureGuids_def Let_def)
qed

theorem policy_gate_witness:
  "\<not> StartsWith (PathName (heapAB 1)) ''/Game/''
   \<and> \<not> ShouldModify (heapAB 1)
   \<and> objs (fst (FixMaterialGuids gen_example heapAB [0, 1])) 1 = heapAB 1
   \<and> objs (fst (FixTextureGuids gen_example heapAB [0, 1])) 1 = heapAB 1
   \<and> objs (fst (FixEmptyTextureGuids gen_example heapAB [0, 1])) 1 = heapAB 1"
proof -
  have h: "\<not> StartsWith (PathName (heapAB 1)) ''/Game/''"
    by (simp add: heapAB_def heap_of_def StartsWith_def)
  show ?thesis
    using h policy_gate [where heap = heapAB and p = 1 and gen = gen_example
        and enum = "[0, 1]"]
    by simp
qed

section \<open>Distinct identifiers after the material scan\<close>

text \<open>
  C2. Let the enumeration list every material once, and let the identifiers drawn from
  the generator during the run be pairwise distinct and different from every identifier
  held by an enumerated material when the run starts. Then two different enumerated
  materials that \<open>ShouldModify\<close> accepts hold different identifiers when
  \<open>FixMaterialGuids\<close> ends.
\<close>

theorem modifiable_assets_end_distinct:
  assumes "distinct enum"
    and "fresh_gen gen (LightingGuid ` heap ` set enum)
           (NewGuidCalls (fst (FixMaterialGuids gen heap enum)))"
    and "a \<in> set enum" and "b \<in> set enum" and "a \<noteq> b"
    and "ShouldModify (heap a)" and "ShouldModify (heap b)"
  shows "GetLightingGuid (fst (FixMaterialGuids gen heap enum)) a
       \<noteq> GetLightingGuid (fst (FixMaterialGuids gen heap enum)) b"
proof -
  have fin: "fst (FixMaterialGuids gen heap enum) =
      FixMaterialGuids_loop gen enum (dedup_init heap)"
    by (simp add: FixMaterialGuids_def Let_def)
  show ?thesis
    unfolding fin
    using assms(1) assms(2) [unfolded fin] assms(3-7)
    by (rule FixMaterialGuids_owners_distinct)
qed

theorem modifiable_assets_end_distinct_witness:
  "distinct [0, 1 :: ptr]
   \<and> fresh_gen gen_example (LightingGuid ` heapPP ` set [0, 1])
        (NewGuidCalls (fst (FixMaterialGuids gen_example heapPP [0, 1])))
   \<and> (0 :: ptr) \<in> set [0, 1] \<and> (1 :: ptr) \<in> set [0, 1] \<and> (0 :: ptr) \<noteq> 1
   \<and> ShouldModify (heapPP 0) \<and> ShouldModify (heapPP 1)
   \<and> GetLightingGuid (fst (FixMaterialGuids gen_example heapPP [0, 1])) 0
       \<noteq> GetLightingGuid (fst (FixMaterialGuids gen_example heapPP [0, 1])) 1"
proof -
  have d: "distinct [0, 1 :: ptr]" by simp
  have G: "LightingGuid ` heapPP ` set [0, 1] = {7}"
    by (simp add: heapPP_def heap_of_def)
  have f: "fresh_gen gen_example (LightingGuid ` heapPP ` set [0, 1])
        (NewGuidCalls (fst (FixMaterialGuids gen_example heapPP [0, 1])))"
    unfolding G heapPP_calls by (rule fresh_gen_example_2)
  have m: "(0 :: ptr) \<in> set [0, 1]" "(1 :: ptr) \<in> set [0, 1]" "(0 :: ptr) \<noteq> 1" by simp_all
  have s: "ShouldModify (heapPP 0)" "ShouldModify (heapPP 1)"
    by (simp_all add: heapPP_def heap_of_def ShouldModify_def StartsWith_def)
  show ?thesis
    using d f m s modifiable_assets_end_distinct [OF d f m s] by simp
qed

section \<open>Two project materials sharing an identifier\<close>

text \<open>
  C3, as stated, fails on two project materials A and B that share the identifier 7,
  with nothing else enumerated: the run gives a new identifier to both, 100 to A as
  the incumbent and 101 to B, so it is not the case that one of them keeps 7.
\<close>

theorem shared_pair_counterexample:
  "ShouldModify (heapPP 0) \<and> ShouldModify (heapPP 1)
   \<and> LightingGuid (heapPP 0) = 7 \<and> LightingGuid (heapPP 1) = 7 \<and> IsValid 7
   \<and> fresh_gen gen_example {7} 2
   \<and> NewGuidCalls (fst (FixMaterialGuids gen_example heapPP [0, 1])) = 2
   \<and> GetLightingGuid (fst (FixMaterialGuids gen_example heapPP [0, 1])) 0 = 100
   \<and> GetLightingGuid (fst (FixMaterialGuids gen_example heapPP [0, 1])) 1 = 101
   \<and> \<not> (GetLightingGuid (fst (FixMaterialGuids gen_example heapPP [0, 1])) 0 = 7
         \<and> GetLightingGuid (fst (FixMaterialGuids gen_example heapPP [0, 1])) 1 \<noteq> 7
       \<or> GetLightingGuid (fst (FixMaterialGuids gen_example heapPP [0, 1])) 0 \<noteq> 7
         \<and> GetLightingGuid (fst (FixMaterialGuids gen_example heapPP [0, 1])) 1 = 7)"
proof -
  have "fresh_gen gen_example {7} 2" by (rule fresh_gen_example_2)
  then show ?thesis by (simp add: run_defs heapPP_def)
qed

text \<open>
  C3, amended. Let the enumeration list every material once and let the generator be
  fresh for the run. If two enumerated project materials share a valid identifier
  that no other enumerated material holds, then both end the run with an identifier
  drawn from the generator, different from the shared one, and the two differ.
\<close>

theorem shared_pair_both_reassigned:
  assumes "distinct enum"
    and "fresh_gen gen (LightingGuid ` heap ` set enum)
           (NewGuidCalls (fst (FixMaterialGuids gen heap enum)))"
    and "a \<in> set enum" and "b \<in> set enum" and "a \<noteq> b"
    and "ShouldModify (heap a)" and "ShouldModify (heap b)"
    and "LightingGuid (heap a) = LightingGuid (heap b)"
    and "IsValid (LightingGuid (heap a))"
    and "\<forall>c\<in>set enum. c \<noteq> a \<and> c \<noteq> b \<longrightarrow> LightingGuid (heap c) \<noteq> LightingGuid (heap a)"
  shows "GetLightingGuid (fst (FixMaterialGuids gen heap enum)) a \<noteq> LightingGuid (heap a)
       \<and> GetLightingGuid (fst (FixMaterialGuids gen heap enum)) b \<noteq> LightingGuid (heap b)
       \<and> GetLightingGuid (fst (FixMaterialGuids gen heap enum)) a
           \<noteq> GetLightingGuid (fst (FixMaterialGuids gen heap enum)) b
       \<and> (\<exists>i<NewGuidCalls (fst (FixMaterialGuids gen heap enum)).
             GetLightingGuid (fst (FixMaterialGuids gen heap enum)) a = gen i)
       \<and> (\<exists>j<NewGuidCalls (fst (FixMaterialGuids gen heap enum)).
             GetLightingGuid (fst (FixMaterialGuids gen heap enum)) b = gen j)"
proof -
  let ?s = "FixMaterialGuids_loop gen enum (dedup_init heap)"
  let ?G = "LightingGuid (heap a)"
  have fin: "fst (FixMaterialGuids gen heap enum) = ?s"
    by (simp add: FixMaterialGuids_def Let_def)
  note fr = assms(2) [unfolded fin]
  from assms(3) have "?G \<in> LightingGuid ` heap ` set enum" by simp
  with fr have frG: "\<forall>i<NewGuidCalls ?s. gen i \<noteq> ?G"
    by (auto simp add: fresh_gen_def)
  have drawn: "(\<exists>i<NewGuidCalls ?s. GetLightingGuid ?s a = gen i)
       \<and> (\<exists>j<NewGuidCalls ?s. GetLightingGuid ?s b = gen j)"
    using assms(1) frG _ assms(3,4,5,6,7) _ _ assms(9,10)
    by (rule shared_pair_drawn) (simp_all add: assms(8))
  with frG have "GetLightingGuid ?s a \<noteq> ?G" "GetLightingGuid ?s b \<noteq> ?G"
    by auto
  moreover have "GetLightingGuid ?s a \<noteq> GetLightingGuid ?s b"
    using assms(1) fr assms(3,4,5,6,7) by (rule FixMaterialGuids_owners_distinct)
  ultimately show ?thesis
    unfolding fin using drawn assms(8) by simp
qed

theorem shared_pair_both_reassigned_witness:
  "distinct [0, 1, 2 :: ptr]
   \<and> fresh_gen gen_example (LightingGuid ` heapPPQ ` set [0, 1, 2])
        (NewGuidCalls (fst (FixMaterialGuids gen_example heapPPQ [0, 1, 2])))
   \<and> ShouldModify (heapPPQ 0) \<and> ShouldModify (heapPPQ 1)
   \<and> LightingGuid (heapPPQ 0) = LightingGuid (heapPPQ 1)
   \<and> IsValid (LightingGuid (heapPPQ 0))
   \<and> LightingGuid (heapPPQ 2) \<noteq> LightingGuid (heapPPQ 0)
   \<and> GetLightingGuid (fst (FixMaterialGuids gen_example heapPPQ [0, 1, 2])) 0
        \<noteq> LightingGuid (heapPPQ 0)
   \<and> GetLightingGuid (fst (FixMaterialGuids gen_example heapPPQ [0, 1, 2])) 1
        \<noteq> LightingGuid (heapPPQ 1)
   \<and> GetLightingGuid (fst (FixMaterialGuids gen_example heapPPQ [0, 1, 2])) 0
        \<noteq> GetLightingGuid (fst (FixMaterialGuids gen_example heapPPQ [0, 1, 2])) 1"
proof -
  have d: "distinct [0, 1, 2 :: ptr]" by simp
  have G: "LightingGuid ` heapPPQ ` set [0, 1, 2] = {7, 9}"
    by (simp add: heapPPQ_def heap_of_def)
  have n: "NewGuidCalls (fst (FixMaterialGuids gen_example heapPPQ [0, 1, 2])) = 2"
    by (simp add: run_defs heapPPQ_def)
  have f: "fresh_gen gen_example (LightingGuid ` heapPPQ ` set [0, 1, 2])
        (NewGuidCalls (fst (FixMaterialGuids gen_example heapPPQ [0, 1, 2])))"
    unfolding G n by (rule fresh_gen_example_7_9)
  have m: "(0 :: ptr) \<in> set [0, 1, 2]" "(1 :: ptr) \<in> set [0, 1, 2]" "(0 :: ptr) \<noteq> 1"
    by simp_all
  have s: "ShouldModify (heapPPQ 0)" "ShouldModify (heapPPQ 1)"
    by (simp_all add: heapPPQ_def heap_of_def ShouldModify_def StartsWith_def)
  have e: "LightingGuid (heapPPQ 0) = LightingGuid (heapPPQ 1)"
    and v: "IsValid (LightingGuid (heapPPQ 0))"
    and o: "LightingGuid (heapPPQ 2) \<noteq> LightingGuid (heapPPQ 0)"
    by (simp_all add: heapPPQ_def heap_of_def IsValid_def)
  from o have o': "\<forall>c\<in>set [0, 1, 2]. c \<noteq> 0 \<and> c \<noteq> 1 \<longrightarrow>
      LightingGuid (heapPPQ c) \<noteq> LightingGuid (heapPPQ 0)"
    by simp
  show ?thesis
    using d f s e v o shared_pair_both_reassigned [OF d f m s e v o'] by simp
qed

section \<open>Two runs in succession\<close>

text \<open>
  C4, evaluated at the enumeration A, B, C, where A and C are project content, B is
  engine content and all three hold the identifier 7. The first run reassigns A when B
  is visited and leaves B unregistered, so that C goes unnoticed: it ends with B and C
  both holding 7 and with the report that nothing was found. The second run, on the
  store left by the first and with the generator going on where it stopped, finds C
  against B, gives C a new identifier and sets \<open>bMadeChanges\<close>.
\<close>

theorem second_run_evaluation:
  "(let (s1, text1) = FixMaterialGuids gen_example heapABC [0, 1, 2];
        (s2, text2) = FixMaterialGuids (rerun_gen gen_example s1) (objs s1) [0, 1, 2]
    in GetLightingGuid s1 0 = 100 \<and> GetLightingGuid s1 1 = 7 \<and> GetLightingGuid s1 2 = 7
       \<and> ShouldModify (objs s1 2) \<and> \<not> ShouldModify (objs s1 1)
       \<and> \<not> bMadeChanges s1 \<and> \<not> bHasWarnings s1
       \<and> text1 = ''No duplicate material GUIDs found.''
       \<and> bMadeChanges s2 \<and> GetLightingGuid s2 2 = 101
       \<and> text2 = ''At least one material GUID has been changed. Use save all to save these changes.'')"
  by (simp add: run_defs heapABC_def FixMaterialGuids_DialogText_def)

section \<open>A project material and an engine material sharing an identifier\<close>

text \<open>
  C5, evaluated on A (project content) and B (engine content), both holding 7. In the
  order B, A the run reassigns A, keeps B and reports a change. In the order A, B the
  run reassigns A as the incumbent and keeps B as well, but \<open>bMadeChanges\<close> stays
  false and the report is that no duplicate was found. When neither may be modified
  the run changes nothing and reports the unresolved issue.
\<close>

theorem shared_guid_report_evaluation:
  "ShouldModify (heapAB 0) \<and> \<not> ShouldModify (heapAB 1)
   \<and> LightingGuid (heapAB 0) = 7 \<and> LightingGuid (heapAB 1) = 7 \<and> IsValid 7
   \<and> (let (s, text) = FixMaterialGuids gen_example heapAB [1, 0]
       in GetLightingGuid s 0 = 100 \<and> GetLightingGuid s 1 = 7
          \<and> bMadeChanges s \<and> \<not> bHasWarnings s
          \<and> text = ''At least one material GUID has been changed. Use save all to save these changes.'')
   \<and> (let (s, text) = FixMaterialGuids gen_example heapAB [0, 1]
       in GetLightingGuid s 0 = 100 \<and> GetLightingGuid s 1 = 7
          \<and> \<not> bMadeChanges s \<and> \<not> bHasWarnings s
          \<and> text = ''No duplicate material GUIDs found.'')
   \<and> \<not> ShouldModify (heapEE 0) \<and> \<not> ShouldModify (heapEE 1)
   \<and> (let (s, text) = FixMaterialGuids gen_example heapEE [0, 1]
       in GetLightingGuid s 0 = 7 \<and> GetLightingGuid s 1 = 7
          \<and> \<not> bMadeChanges s \<and> bHasWarnings s
          \<and> text = ''No material GUID has been changed, but there are some unresolvable issues (Please refer to log).'')"
  by (simp add: run_defs heapAB_def heapEE_def FixMaterialGuids_DialogText_def)

section \<open>Textures without an identifier\<close>

text \<open>
  C7. In the texture scan an iteration that finds an invalid identifier only sets
  \<open>bHasWarnings\<close>, whatever the path of the texture: the store, the registry,
  \<open>bMadeChanges\<close> and the generator are left as they were. Over a whole run, an
  enumerated texture whose identifier is invalid makes the run end with
  \<open>bHasWarnings\<close>, unchanged and in no entry of the registry. In
  \<open>FixEmptyTextureGuids\<close> the iteration for a project texture with an invalid
  identifier stores the next identifier of the generator, sets \<open>bMadeChanges\<close> and
  leaves \<open>bHasWarnings\<close> alone. For a project texture with an invalid identifier
  enumerated alone, the texture scan reports the unresolved issue without a change,
  and \<open>FixEmptyTextureGuids\<close> run afterwards reports a change without a warning.
\<close>

theorem texture_pass_asymmetry:
  "(\<not> IsValid (GetLightingGuid s Texture) \<longrightarrow>
      FixTextureGuids_body gen Texture s = s\<lparr>bHasWarnings := True\<rparr>)
   \<and> (Texture \<in> set enum \<and> \<not> IsValid (LightingGuid (heap Texture)) \<longrightarrow>
      bHasWarnings (fst (FixTextureGuids gen heap enum))
      \<and> objs (fst (FixTextureGuids gen heap enum)) Texture = heap Texture
      \<and> (\<forall>k. Guids (fst (FixTextureGuids gen heap enum)) k \<noteq> Some Texture))
   \<and> (\<not> IsValid (GetLightingGuid u Texture) \<and> ShouldModify (objs u Texture) \<longrightarrow>
      FixEmptyTextureGuids_body gen Texture u =
        (SetLightingGuid gen Texture u)\<lparr>bMadeChanges := True\<rparr>
      \<and> GetLightingGuid (FixEmptyTextureGuids_body gen Texture u) Texture = gen (NewGuidCalls u)
      \<and> bMadeChanges (FixEmptyTextureGuids_body gen Texture u)
      \<and> bHasWarnings (FixEmptyTextureGuids_body gen Texture u) = bHasWarnings u)
   \<and> (\<not> IsValid (LightingGuid (heap Texture)) \<and> ShouldModify (heap Texture) \<longrightarrow>
      (let (s1, text1) = FixTextureGuids gen heap [Texture];
           (s2, text2) = FixEmptyTextureGuids (rerun_gen gen s1) (objs s1) [Texture]
       in objs s1 = heap \<and> \<not> bMadeChanges s1 \<and> bHasWarnings s1
          \<and> text1 = ''No texture GUID has been changed, but there are some unresolvable issues (Please refer to log).''
          \<and> GetLightingGuid s2 Texture = gen 0 \<and> bMadeChanges s2 \<and> \<not> bHasWarnings s2
          \<and> text2 = ''At least one texture GUID has been changed. Use save all to save these changes.''))"
proof (intro conjI impI)
  assume "\<not> IsValid (GetLightingGuid s Texture)"
  then show "FixTextureGuids_body gen Texture s = s\<lparr>bHasWarnings := True\<rparr>"
    by (simp add: FixTextureGuids_body_def)
next
  assume a: "Texture \<in> set enum \<and> \<not> IsValid (LightingGuid (heap Texture))"
  let ?s0 = "dedup_init heap"
  have fin: "fst (FixTextureGuids gen heap enum) = FixTextureGuids_loop gen enum ?s0"
    by (simp add: FixTextureGuids_def Let_def)
  from a have inv: "\<not> IsValid (GetLightingGuid ?s0 Texture)"
    by (simp add: dedup_init_def GetLightingGuid_def)
  have reg: "\<forall>k. Guids ?s0 k \<noteq> Some Texture" by (simp add: dedup_init_def)
  from a have "Texture \<in> set enum" by simp
  then show "bHasWarnings (fst (FixTextureGuids gen heap enum))"
    unfolding fin using inv reg by (rule invalid_texture_warns)
  from untouched_FixTextureGuids_loop [OF inv reg, of gen enum]
  show "objs (fst (FixTextureGuids gen heap enum)) Texture = heap Texture"
    and "\<forall>k. Guids (fst (FixTextureGuids gen heap enum)) k \<noteq> Some Texture"
    unfolding fin by (simp_all add: dedup_init_def)
next
  assume a: "\<not> IsValid (GetLightingGuid u Texture) \<and> ShouldModify (objs u Texture)"
  then show eq: "FixEmptyTextureGuids_body gen Texture u =
        (SetLightingGuid gen Texture u)\<lparr>bMadeChanges := True\<rparr>"
    by (simp add: FixEmptyTextureGuids_body_def)
  show "GetLightingGuid (FixEmptyTextureGuids_body gen Texture u) Texture = gen (NewGuidCalls u)"
    and "bMadeChanges (FixEmptyTextureGuids_body gen Texture u)"
    and "bHasWarnings (FixEmptyTextureGuids_body gen Texture u) = bHasWarnings u"
    unfolding eq by simp_all
next
  assume a: "\<not> IsValid (LightingGuid (heap Texture)) \<and> ShouldModify (heap Texture)"
  then show "(let (s1, text1) = FixTextureGuids gen heap [Texture];
           (s2, text2) = FixEmptyTextureGuids (rerun_gen gen s1) (objs s1) [Texture]
       in objs s1 = heap \<and> \<not> bMadeChanges s1 \<and> bHasWarnings s1
          \<and> text1 = ''No texture GUID has been changed, but there are some unresolvable issues (Please refer to log).''
          \<and> GetLightingGuid s2 Texture = gen 0 \<and> bMadeChanges s2 \<and> \<not> bHasWarnings s2
          \<and> text2 = ''At least one texture GUID has been changed. Use save all to save these changes.'')"
    by (simp add: FixTextureGuids_def FixEmptyTextureGuids_def dedup_init_def scan_init_def
        FixTextureGuids_body_def FixEmptyTextureGuids_body_def GetLightingGuid_def
        FixTextureGuids_DialogText_def FixEmptyTextureGuids_DialogText_def rerun_gen_def
        objs_SetLightingGuid)
qed

theorem texture_pass_asymmetry_witness:
  "\<not> IsValid (LightingGuid (heapT 0)) \<and> ShouldModify (heapT 0) \<and> (0 :: ptr) \<in> set [0]
   \<and> FixTextureGuids_body gen_example 0 (dedup_init heapT) =
        (dedup_init heapT)\<lparr>bHasWarnings := True\<rparr>
   \<and> bHasWarnings (fst (FixTextureGuids gen_example heapT [0]))
   \<and> objs (fst (FixTextureGuids gen_example heapT [0])) 0 = heapT 0
   \<and> GetLightingGuid (FixEmptyTextureGuids_body gen_example 0 (scan_init heapT)) 0 = 100
   \<and> bMadeChanges (FixEmptyTextureGuids_body gen_example 0 (scan_init heapT))
   \<and> \<not> bHasWarnings (FixEmptyTextureGuids_body gen_example 0 (scan_init heapT))"
proof -
  have h: "\<not> IsValid (LightingGuid (heapT 0))" "ShouldModify (heapT 0)"
    by (simp_all add: heapT_def heap_of_def IsValid_def ShouldModify_def StartsWith_def)
  have g: "\<not> IsValid (GetLightingGuid (dedup_init heapT) 0)"
    "\<not> IsValid (GetLightingGuid (scan_init heapT) 0)"
    "ShouldModify (objs (scan_init heapT) 0)"
    using h by (simp_all add: dedup_init_def scan_init_def GetLightingGuid_def)
  have c: "NewGuidCalls (scan_init heapT) = 0" "\<not> bHasWarnings (scan_init heapT)"
    by (simp_all add: scan_init_def)
  show ?thesis
    using h g c
      texture_pass_asymmetry [where s = "dedup_init heapT" and Texture = 0
        and gen = gen_example and heap = heapT and enum = "[0]" and u = "scan_init heapT"]
    by (simp add: gen_example_def)
qed

section \<open>Valid identifiers in the scan for empty identifiers\<close>

text \<open>
  C8. \<open>FixEmptyTextureGuids\<close> has no registry and compares no identifiers. When every
  enumerated texture holds a valid identifier, shared or not, the run ends in the state
  it started in: no object changed, both flags false, and the report is that no empty
  identifier was found.
\<close>

theorem fix_empty_ignores_duplicates:
  assumes "\<forall>p\<in>set enum. IsValid (LightingGuid (heap p))"
  shows "FixEmptyTextureGuids gen heap enum = (scan_init heap, ''No empty texture GUIDs found.'')
       \<and> objs (fst (FixEmptyTextureGuids gen heap enum)) = heap
       \<and> \<not> bMadeChanges (fst (FixEmptyTextureGuids gen heap enum))
       \<and> \<not> bHasWarnings (fst (FixEmptyTextureGuids gen heap enum))"
proof -
  from assms have "\<forall>p\<in>set enum. IsValid (GetLightingGuid (scan_init heap) p)"
    by (simp add: scan_init_def GetLightingGuid_def)
  then have "FixEmptyTextureGuids_loop gen enum (scan_init heap) = scan_init heap"
    by (rule FixEmptyTextureGuids_loop_valid)
  then have "FixEmptyTextureGuids gen heap enum =
      (scan_init heap, ''No empty texture GUIDs found.'')"
    by (simp add: FixEmptyTextureGuids_def FixEmptyTextureGuids_DialogText_def scan_init_def)
  then show ?thesis by (simp add: scan_init_def)
qed

theorem fix_empty_ignores_duplicates_witness:
  "IsValid (LightingGuid (heapPP 0)) \<and> IsValid (LightingGuid (heapPP 1))
   \<and> LightingGuid (heapPP 0) = LightingGuid (heapPP 1)
   \<and> FixEmptyTextureGuids gen_example heapPP [0, 1] =
       (scan_init heapPP, ''No empty texture GUIDs found.'')"
proof -
  have v: "\<forall>p\<in>set [0, 1]. IsValid (LightingGuid (heapPP p))"
    by (simp add: heapPP_def heap_of_def IsValid_def)
  have "LightingGuid (heapPP 0) = LightingGuid (heapPP 1)"
    by (simp add: heapPP_def heap_of_def)
  then show ?thesis
    using v fix_empty_ignores_duplicates [OF v, of gen_example] by simp
qed

section \<open>Consistency of the registry\<close>

text \<open>
  C9. Let the enumeration list every object once. In the material scan and in the
  texture scan, the state \<open>s\<close> in which the iteration for \<open>Object\<close> starts is the state
  left by the iterations before it, and in \<open>s\<close> every entry of the registry points to an
  object holding the key of the entry. At the lookup of the iteration (in the material
  scan after the repair of an invalid identifier, if there was one), an entry found for
  the identifier of \<open>Object\<close> points to an object holding that identifier: the test
  before the reassignment of the incumbent succeeds at every hit. No assumption on the
  generator is needed.
\<close>

theorem registry_consistency:
  assumes "distinct (before @ Object # rest)"
  shows "(let sM = FixMaterialGuids_loop gen before (dedup_init heap);
              sM' = (if \<not> IsValid (GetLightingGuid sM Object) \<and> ShouldModify (objs sM Object)
                     then (SetLightingGuid gen Object sM)\<lparr>bMadeChanges := True\<rparr> else sM);
              sT = FixTextureGuids_loop gen before (dedup_init heap)
          in FixMaterialGuids_loop gen (before @ Object # rest) (dedup_init heap) =
               FixMaterialGuids_loop gen rest (FixMaterialGuids_body gen Object sM)
           \<and> (Guids sM k = Some a \<longrightarrow> GetLightingGuid sM a = k)
           \<and> (Guids sM' (GetLightingGuid sM' Object) = Some ResultRef \<longrightarrow>
                GetLightingGuid sM' ResultRef = GetLightingGuid sM' Object)
           \<and> FixTextureGuids_loop gen (before @ Object # rest) (dedup_init heap) =
               FixTextureGuids_loop gen rest (FixTextureGuids_body gen Object sT)
           \<and> (Guids sT k = Some a \<longrightarrow> GetLightingGuid sT a = k)
           \<and> (Guids sT (GetLightingGuid sT Object) = Some ResultRef \<longrightarrow>
                GetLightingGuid sT ResultRef = GetLightingGuid sT Object))"
proof -
  define sM where "sM = FixMaterialGuids_loop gen before (dedup_init heap)"
  define sM' where "sM' = (if \<not> IsValid (GetLightingGuid sM Object) \<and> ShouldModify (objs sM Object)
                     then (SetLightingGuid gen Object sM)\<lparr>bMadeChanges := True\<rparr> else sM)"
  define sT where "sT = FixTextureGuids_loop gen before (dedup_init heap)"
  from assms have d: "distinct before" and new: "Object \<notin> set before" by simp_all
  have okM: "registry_ok (set before) sM"
    using registry_ok_FixMaterialGuids_loop [OF registry_ok_init d, of gen heap]
    by (simp add: sM_def)
  have okT: "registry_ok (set before) sT"
    using registry_ok_FixTextureGuids_loop [OF registry_ok_init d, of gen heap]
    by (simp add: sT_def)
  have okM': "registry_ok (set before) sM'"
    using okM new by (simp add: sM'_def registry_ok_SetLightingGuid)
  have 1: "FixMaterialGuids_loop gen (before @ Object # rest) (dedup_init heap) =
               FixMaterialGuids_loop gen rest (FixMaterialGuids_body gen Object sM)"
    by (simp add: FixMaterialGuids_loop_append sM_def)
  have 2: "Guids sM k = Some a \<longrightarrow> GetLightingGuid sM a = k"
    using okM by (auto dest: registry_okD)
  have 3: "Guids sM' (GetLightingGuid sM' Object) = Some ResultRef \<longrightarrow>
                GetLightingGuid sM' ResultRef = GetLightingGuid sM' Object"
    using okM' by (auto dest: registry_okD)
  have 4: "FixTextureGuids_loop gen (before @ Object # rest) (dedup_init heap) =
               FixTextureGuids_loop gen rest (FixTextureGuids_body gen Object sT)"
    by (simp add: FixTextureGuids_loop_append sT_def)
  have 5: "Guids sT k = Some a \<longrightarrow> GetLightingGuid sT a = k"
    using okT by (auto dest: registry_okD)
  have 6: "Guids sT (GetLightingGuid sT Object) = Some ResultRef \<longrightarrow>
                GetLightingGuid sT ResultRef = GetLightingGuid sT Object"
    using okT by (auto dest: registry_okD)
  from 1 2 3 4 5 6 show ?thesis
    unfolding Let_def sM_def [symmetric] sM'_def [symmetric] sT_def [symmetric] by blast
qed

theorem registry_consistency_witness:
  "distinct ([0] @ 1 # [] :: ptr list)
   \<and> Guids (FixMaterialGuids_loop gen_example [0] (dedup_init heapAB)) 7 = Some 0
   \<and> GetLightingGuid (FixMaterialGuids_loop gen_example [0] (dedup_init heapAB)) 0 = 7
   \<and> GetLightingGuid (FixMaterialGuids_loop gen_example [0] (dedup_init heapAB)) 1 = 7"
proof -
  have d: "distinct ([0] @ 1 # [] :: ptr list)" by simp
  have hit: "Guids (FixMaterialGuids_loop gen_example [0] (dedup_init heapAB)) 7 = Some 0"
    by (simp add: run_defs heapAB_def)
  have cur: "GetLightingGuid (FixMaterialGuids_loop gen_example [0] (dedup_init heapAB)) 1 = 7"
    by (simp add: run_defs heapAB_def)
  show ?thesis
    using d hit cur
      registry_consistency [OF d, where gen = gen_example and heap = heapAB and k = 7
        and a = 0 and ResultRef = 0]
    by (simp add: Let_def)
qed

section \<open>Running to completion\<close>

text \<open>
  C10. The three scans are total functions of the enumeration: each is its loop
  started in the initial state, the loop applies the body of the iteration to every
  enumerated object in turn, in the state left by the objects before it, and a loop
  started with \<open>bHasWarnings\<close> set does what it does without it and ends with the
  flag set. Every enumerated object is dealt with, wherever it stands in the
  enumeration and whatever was refused before it:
  \<^item> an object with an invalid identifier makes the texture scan end with a warning
    and unchanged; if it may be modified it ends the material scan and
    \<open>FixEmptyTextureGuids\<close> with an identifier drawn from the generator; if it may
    not, both end with a warning;
  \<^item> an object with a valid identifier is left as it is by \<open>FixEmptyTextureGuids\<close>;
  \<^item> when every object is enumerated once and the generator is fresh for the run, an
    object that may be modified (in the texture scan: with a valid identifier) ends
    a collision scan as the registered holder of its identifier, so that two such
    textures end with different identifiers;
  \<^item> under the same conditions, for an object that may not be modified a collision
    scan ends with the object registered under its identifier, or with a warning, or
    with a modifiable object that shared its identifier moved to another one.
\<close>

theorem scans_run_to_completion:
  "FixMaterialGuids gen heap enum =
     (FixMaterialGuids_loop gen enum (dedup_init heap),
      FixMaterialGuids_DialogText
        (bMadeChanges (FixMaterialGuids_loop gen enum (dedup_init heap)))
        (bHasWarnings (FixMaterialGuids_loop gen enum (dedup_init heap))))
   \<and> FixTextureGuids gen heap enum =
     (FixTextureGuids_loop gen enum (dedup_init heap),
      FixTextureGuids_DialogText
        (bMadeChanges (FixTextureGuids_loop gen enum (dedup_init heap)))
        (bHasWarnings (FixTextureGuids_loop gen enum (dedup_init heap))))
   \<and> FixEmptyTextureGuids gen heap enum =
     (FixEmptyTextureGuids_loop gen enum (scan_init heap),
      FixEmptyTextureGuids_DialogText
        (bMadeChanges (FixEmptyTextureGuids_loop gen enum (scan_init heap)))
        (bHasWarnings (FixEmptyTextureGuids_loop gen enum (scan_init heap))))
   \<and> FixMaterialGuids_loop gen (before @ Object # rest) s =
       FixMaterialGuids_loop gen rest
         (FixMaterialGuids_body gen Object (FixMaterialGuids_loop gen before s))
   \<and> FixTextureGuids_loop gen (before @ Object # rest) s =
       FixTextureGuids_loop gen rest
         (FixTextureGuids_body gen Object (FixTextureGuids_loop gen before s))
   \<and> FixEmptyTextureGuids_loop gen (before @ Object # rest) u =
       FixEmptyTextureGuids_loop gen rest
         (FixEmptyTextureGuids_body gen Object (FixEmptyTextureGuids_loop gen before u))
   \<and> FixMaterialGuids_loop gen enum (s\<lparr>bHasWarnings := True\<rparr>) =
       (FixMaterialGuids_loop gen enum s)\<lparr>bHasWarnings := True\<rparr>
   \<and> FixTextureGuids_loop gen enum (s\<lparr>bHasWarnings := True\<rparr>) =
       (FixTextureGuids_loop gen enum s)\<lparr>bHasWarnings := True\<rparr>
   \<and> FixEmptyTextureGuids_loop gen enum (u\<lparr>bHasWarnings := True\<rparr>) =
       (FixEmptyTextureGuids_loop gen enum u)\<lparr>bHasWarnings := True\<rparr>
   \<and> (let sM = fst (FixMaterialGuids gen heap enum);
           sT = fst (FixTextureGuids gen heap enum);
           sE = fst (FixEmptyTextureGuids gen heap enum);
           G = LightingGuid ` heap ` set enum
       in (Broken \<in> set enum \<and> \<not> IsValid (LightingGuid (heap Broken)) \<longrightarrow>
             bHasWarnings sT \<and> objs sT Broken = heap Broken)
        \<and> (Broken \<in> set enum \<and> \<not> IsValid (LightingGuid (heap Broken))
             \<and> ShouldModify (heap Broken) \<longrightarrow>
             (\<exists>i<NewGuidCalls sM. GetLightingGuid sM Broken = gen i)
             \<and> (\<exists>i<NewGuidCalls sE. GetLightingGuid sE Broken = gen i))
        \<and> (Broken \<in> set enum \<and> \<not> IsValid (LightingGuid (heap Broken))
             \<and> \<not> ShouldModify (heap Broken) \<longrightarrow>
             bHasWarnings sM \<and> bHasWarnings sE)
        \<and> (Sound \<in> set enum \<and> IsValid (LightingGuid (heap Sound)) \<longrightarrow>
             objs sE Sound = heap Sound)
        \<and> (distinct enum \<and> fresh_gen gen G (NewGuidCalls sM)
             \<and> Owned \<in> set enum \<and> ShouldModify (heap Owned) \<longrightarrow>
             Guids sM (GetLightingGuid sM Owned) = Some Owned)
        \<and> (distinct enum \<and> fresh_gen gen G (NewGuidCalls sT)
             \<and> Owned \<in> set enum \<and> ShouldModify (heap Owned)
             \<and> IsValid (LightingGuid (heap Owned)) \<longrightarrow>
             Guids sT (GetLightingGuid sT Owned) = Some Owned)
        \<and> (distinct enum \<and> fresh_gen gen G (NewGuidCalls sT)
             \<and> Owned \<in> set enum \<and> ShouldModify (heap Owned)
             \<and> IsValid (LightingGuid (heap Owned))
             \<and> Other \<in> set enum \<and> ShouldModify (heap Other)
             \<and> IsValid (LightingGuid (heap Other)) \<and> Owned \<noteq> Other \<longrightarrow>
             GetLightingGuid sT Owned \<noteq> GetLightingGuid sT Other)
        \<and> (distinct enum \<and> fresh_gen gen G (NewGuidCalls sM)
             \<and> Locked \<in> set enum \<and> \<not> ShouldModify (heap Locked) \<longrightarrow>
             Guids sM (LightingGuid (heap Locked)) = Some Locked \<or> bHasWarnings sM
             \<or> (\<exists>r\<in>set enum. r \<noteq> Locked \<and> ShouldModify (heap r)
                   \<and> LightingGuid (heap r) = LightingGuid (heap Locked)
                   \<and> GetLightingGuid sM r \<noteq> LightingGuid (heap r)))
        \<and> (distinct enum \<and> fresh_gen gen G (NewGuidCalls sT)
             \<and> Locked \<in> set enum \<and> \<not> ShouldModify (heap Locked) \<longrightarrow>
             Guids sT (LightingGuid (heap Locked)) = Some Locked \<or> bHasWarnings sT
             \<or> (\<exists>r\<in>set enum. r \<noteq> Locked \<and> ShouldModify (heap r)
                   \<and> LightingGuid (heap r) = LightingGuid (heap Locked)
                   \<and> GetLightingGuid sT r \<noteq> LightingGuid (heap r))))"
proof -
  define sM where "sM = FixMaterialGuids_loop gen enum (dedup_init heap)"
  define sT where "sT = FixTextureGuids_loop gen enum (dedup_init heap)"
  define sE where "sE = FixEmptyTextureGuids_loop gen enum (scan_init heap)"
  define G where "G = LightingGuid ` heap ` set enum"
  have fM: "fst (FixMaterialGuids gen heap enum) = sM"
    and fT: "fst (FixTextureGuids gen heap enum) = sT"
    and fE: "fst (FixEmptyTextureGuids gen heap enum) = sE"
    by (simp_all add: FixMaterialGuids_def FixTextureGuids_def FixEmptyTextureGuids_def
        Let_def sM_def sT_def sE_def)
  have l1: "FixMaterialGuids gen heap enum =
     (FixMaterialGuids_loop gen enum (dedup_init heap),
      FixMaterialGuids_DialogText
        (bMadeChanges (FixMaterialGuids_loop gen enum (dedup_init heap)))
        (bHasWarnings (FixMaterialGuids_loop gen enum (dedup_init heap))))"
    by (simp add: FixMaterialGuids_def Let_def)
  have l2: "FixTextureGuids gen heap enum =
     (FixTextureGuids_loop gen enum (dedup_init heap),
      FixTextureGuids_DialogText
        (bMadeChanges (FixTextureGuids_loop gen enum (dedup_init heap)))
        (bHasWarnings (FixTextureGuids_loop gen enum (dedup_init heap))))"
    by (simp add: FixTextureGuids_def Let_def)
  have l3: "FixEmptyTextureGuids gen heap enum =
     (FixEmptyTextureGuids_loop gen enum (scan_init heap),
      FixEmptyTextureGuids_DialogText
        (bMadeChanges (FixEmptyTextureGuids_loop gen enum (scan_init heap)))
        (bHasWarnings (FixEmptyTextureGuids_loop gen enum (scan_init heap))))"
    by (simp add: FixEmptyTextureGuids_def Let_def)
  have l4: "FixMaterialGuids_loop gen (before @ Object # rest) s =
       FixMaterialGuids_loop gen rest
         (FixMaterialGuids_body gen Object (FixMaterialGuids_loop gen before s))"
    by (simp add: FixMaterialGuids_loop_append)
  have l5: "FixTextureGuids_loop gen (before @ Object # rest) s =
       FixTextureGuids_loop gen rest
         (FixTextureGuids_body gen Object (FixTextureGuids_loop gen before s))"
    by (simp add: FixTextureGuids_loop_append)
  have l6: "FixEmptyTextureGuids_loop gen (before @ Object # rest) u =
       FixEmptyTextureGuids_loop gen rest
         (FixEmptyTextureGuids_body gen Object (FixEmptyTextureGuids_loop gen before u))"
    by (simp add: FixEmptyTextureGuids_loop_append)
  note l7 = warning_commutes_FixMaterialGuids_loop [of gen enum s]
  note l8 = warning_commutes_FixTextureGuids_loop [of gen enum s]
  note l9 = warning_commutes_FixEmptyTextureGuids_loop [of gen enum u]
  have gi: "GetLightingGuid (dedup_init heap) x = LightingGuid (heap x)"
    "objs (dedup_init heap) x = heap x" "Guids (dedup_init heap) k = None"
    "GetLightingGuid (scan_init heap) x = LightingGuid (heap x)"
    "objs (scan_init heap) x = heap x" for x k
    by (simp_all add: dedup_init_def scan_init_def GetLightingGuid_def)
  have c1: "bHasWarnings sT \<and> objs sT Broken = heap Broken"
    if "Broken \<in> set enum" "\<not> IsValid (LightingGuid (heap Broken))"
  proof -
    have inv: "\<not> IsValid (GetLightingGuid (dedup_init heap) Broken)"
      and reg: "\<forall>k. Guids (dedup_init heap) k \<noteq> Some Broken"
      using that by (simp_all add: gi)
    from invalid_texture_warns [OF that(1) inv reg, of gen]
      untouched_FixTextureGuids_loop [OF inv reg, of gen enum]
    show ?thesis by (simp add: sT_def gi)
  qed
  have c2: "(\<exists>i<NewGuidCalls sM. GetLightingGuid sM Broken = gen i)
      \<and> (\<exists>i<NewGuidCalls sE. GetLightingGuid sE Broken = gen i)"
    if "Broken \<in> set enum" "\<not> IsValid (LightingGuid (heap Broken))"
      "ShouldModify (heap Broken)"
  proof
    show "\<exists>i<NewGuidCalls sM. GetLightingGuid sM Broken = gen i"
      unfolding sM_def using that
      by (intro repaired_FixMaterialGuids_loop) (simp_all add: gi)
    show "\<exists>i<NewGuidCalls sE. GetLightingGuid sE Broken = gen i"
      unfolding sE_def using that
      by (intro repaired_FixEmptyTextureGuids_loop) (simp_all add: gi)
  qed
  have c3: "bHasWarnings sM \<and> bHasWarnings sE"
    if "Broken \<in> set enum" "\<not> IsValid (LightingGuid (heap Broken))"
      "\<not> ShouldModify (heap Broken)"
  proof
    show "bHasWarnings sM"
      unfolding sM_def using that by (intro locked_material_warns) (simp_all add: gi)
    show "bHasWarnings sE"
      unfolding sE_def using that by (intro locked_texture_warns) (simp_all add: gi)
  qed
  have c4: "objs sE Sound = heap Sound" if "IsValid (LightingGuid (heap Sound))"
    using valid_FixEmptyTextureGuids_loop [of "scan_init heap" Sound gen enum] that
    by (simp add: sE_def gi)
  have c5: "Guids sM (GetLightingGuid sM Owned) = Some Owned"
    if "distinct enum" "fresh_gen gen G (NewGuidCalls sM)" "Owned \<in> set enum"
      "ShouldModify (heap Owned)"
    using that unfolding sM_def G_def by (rule FixMaterialGuids_owner_registered)
  have c6: "Guids sT (GetLightingGuid sT a) = Some a"
    if "distinct enum" "fresh_gen gen G (NewGuidCalls sT)" "a \<in> set enum"
      "ShouldModify (heap a)" "IsValid (LightingGuid (heap a))" for a
    using that unfolding sT_def G_def by (rule FixTextureGuids_owner_registered)
  have c7: "GetLightingGuid sT Owned \<noteq> GetLightingGuid sT Other"
    if "distinct enum" "fresh_gen gen G (NewGuidCalls sT)" "Owned \<in> set enum"
      "ShouldModify (heap Owned)" "IsValid (LightingGuid (heap Owned))"
      "Other \<in> set enum" "ShouldModify (heap Other)" "IsValid (LightingGuid (heap Other))"
      "Owned \<noteq> Other"
    using c6 [OF that(1,2,3,4,5)] c6 [OF that(1,2,6,7,8)] that(9) by auto
  have c8: "Guids sM (LightingGuid (heap Locked)) = Some Locked \<or> bHasWarnings sM
      \<or> (\<exists>r\<in>set enum. r \<noteq> Locked \<and> ShouldModify (heap r)
            \<and> LightingGuid (heap r) = LightingGuid (heap Locked)
            \<and> GetLightingGuid sM r \<noteq> LightingGuid (heap r))"
    if "distinct enum" "fresh_gen gen G (NewGuidCalls sM)" "Locked \<in> set enum"
      "\<not> ShouldModify (heap Locked)"
  proof -
    have "settled gen heap (set enum) Locked sM"
      using that unfolding sM_def G_def by (rule FixMaterialGuids_settles)
    then show ?thesis
      using that(3) that(2) [unfolded G_def] by (rule settled_outcome)
  qed
  have c9: "Guids sT (LightingGuid (heap Locked)) = Some Locked \<or> bHasWarnings sT
      \<or> (\<exists>r\<in>set enum. r \<noteq> Locked \<and> ShouldModify (heap r)
            \<and> LightingGuid (heap r) = LightingGuid (heap Locked)
            \<and> GetLightingGuid sT r \<noteq> LightingGuid (heap r))"
    if "distinct enum" "fresh_gen gen G (NewGuidCalls sT)" "Locked \<in> set enum"
      "\<not> ShouldModify (heap Locked)"
  proof -
    have "settled gen heap (set enum) Locked sT"
      using that unfolding sT_def G_def by (rule FixTextureGuids_settles)
    then show ?thesis
      using that(3) that(2) [unfolded G_def] by (rule settled_outcome)
  qed
  show ?thesis
    unfolding Let_def fM fT fE G_def [symmetric]
  proof (intro conjI impI; (elim conjE)?)
    show "FixMaterialGuids gen heap enum =
     (FixMaterialGuids_loop gen enum (dedup_init heap),
      FixMaterialGuids_DialogText
        (bMadeChanges (FixMaterialGuids_loop gen enum (dedup_init heap)))
        (bHasWarnings (FixMaterialGuids_loop gen enum (dedup_init heap))))"
      by (rule l1)
  qed (fact l2 l3 l4 l5 l6 l7 l8 l9 | erule (8) c7 | erule (4) c6 | erule (3) c5 c8 c9
       | erule (2) c2 [THEN conjunct1] c2 [THEN conjunct2] c3 [THEN conjunct1]
           c3 [THEN conjunct2]
       | erule (1) c1 [THEN conjunct1] c1 [THEN conjunct2] | erule c4)+
qed

theorem scans_run_to_completion_witness:
  "distinct [0, 1, 2, 3, 4 :: ptr]
   \<and> fresh_gen gen_example (LightingGuid ` heapRun ` set [0, 1, 2, 3, 4])
        (NewGuidCalls (fst (FixMaterialGuids gen_example heapRun [0, 1, 2, 3, 4])))
   \<and> fresh_gen gen_example (LightingGuid ` heapRun ` set [0, 1, 2, 3, 4])
        (NewGuidCalls (fst (FixTextureGuids gen_example heapRun [0, 1, 2, 3, 4])))
   \<and> \<not> IsValid (LightingGuid (heapRun 0)) \<and> \<not> ShouldModify (heapRun 0)
   \<and> \<not> IsValid (LightingGuid (heapRun 1)) \<and> ShouldModify (heapRun 1)
   \<and> IsValid (LightingGuid (heapRun 2)) \<and> \<not> ShouldModify (heapRun 2)
   \<and> IsValid (LightingGuid (heapRun 3)) \<and> ShouldModify (heapRun 3)
   \<and> IsValid (LightingGuid (heapRun 4)) \<and> ShouldModify (heapRun 4)
   \<and> bHasWarnings (fst (FixTextureGuids gen_example heapRun [0, 1, 2, 3, 4]))
   \<and> objs (fst (FixTextureGuids gen_example heapRun [0, 1, 2, 3, 4])) 1 = heapRun 1
   \<and> bHasWarnings (fst (FixMaterialGuids gen_example heapRun [0, 1, 2, 3, 4]))
   \<and> bHasWarnings (fst (FixEmptyTextureGuids gen_example heapRun [0, 1, 2, 3, 4]))
   \<and> (\<exists>i<NewGuidCalls (fst (FixMaterialGuids gen_example heapRun [0, 1, 2, 3, 4])).
         GetLightingGuid (fst (FixMaterialGuids gen_example heapRun [0, 1, 2, 3, 4])) 1
           = gen_example i)
   \<and> (\<exists>i<NewGuidCalls (fst (FixEmptyTextureGuids gen_example heapRun [0, 1, 2, 3, 4])).
         GetLightingGuid (fst (FixEmptyTextureGuids gen_example heapRun [0, 1, 2, 3, 4])) 1
           = gen_example i)
   \<and> objs (fst (FixEmptyTextureGuids gen_example heapRun [0, 1, 2, 3, 4])) 3 = heapRun 3
   \<and> Guids (fst (FixMaterialGuids gen_example heapRun [0, 1, 2, 3, 4]))
        (GetLightingGuid (fst (FixMaterialGuids gen_example heapRun [0, 1, 2, 3, 4])) 3)
        = Some 3
   \<and> Guids (fst (FixTextureGuids gen_example heapRun [0, 1, 2, 3, 4]))
        (GetLightingGuid (fst (FixTextureGuids gen_example heapRun [0, 1, 2, 3, 4])) 3)
        = Some 3
   \<and> GetLightingGuid (fst (FixTextureGuids gen_example heapRun [0, 1, 2, 3, 4])) 3
        \<noteq> GetLightingGuid (fst (FixTextureGuids gen_example heapRun [0, 1, 2, 3, 4])) 4
   \<and> (Guids (fst (FixTextureGuids gen_example heapRun [0, 1, 2, 3, 4]))
          (LightingGuid (heapRun 2)) = Some 2
        \<or> bHasWarnings (fst (FixTextureGuids gen_example heapRun [0, 1, 2, 3, 4]))
        \<or> (\<exists>r\<in>set [0, 1, 2, 3, 4]. r \<noteq> 2 \<and> ShouldModify (heapRun r)
              \<and> LightingGuid (heapRun r) = LightingGuid (heapRun 2)
              \<and> GetLightingGuid (fst (FixTextureGuids gen_example heapRun [0, 1, 2, 3, 4])) r
                   \<noteq> LightingGuid (heapRun r)))
   \<and> (Guids (fst (FixMaterialGuids gen_example heapRun [0, 1, 2, 3, 4]))
          (LightingGuid (heapRun 2)) = Some 2
        \<or> bHasWarnings (fst (FixMaterialGuids gen_example heapRun [0, 1, 2, 3, 4]))
        \<or> (\<exists>r\<in>set [0, 1, 2, 3, 4]. r \<noteq> 2 \<and> ShouldModify (heapRun r)
              \<and> LightingGuid (heapRun r) = LightingGuid (heapRun 2)
              \<and> GetLightingGuid (fst (FixMaterialGuids gen_example heapRun [0, 1, 2, 3, 4])) r
                   \<noteq> LightingGuid (heapRun r)))"
proof -
  have d: "distinct [0, 1, 2, 3, 4 :: ptr]" by simp
  have fM: "fresh_gen gen_example (LightingGuid ` heapRun ` set [0, 1, 2, 3, 4])
        (NewGuidCalls (fst (FixMaterialGuids gen_example heapRun [0, 1, 2, 3, 4])))"
    and fT: "fresh_gen gen_example (LightingGuid ` heapRun ` set [0, 1, 2, 3, 4])
        (NewGuidCalls (fst (FixTextureGuids gen_example heapRun [0, 1, 2, 3, 4])))"
    unfolding heapRun_guids heapRun_calls by (simp_all add: fresh_gen_example_0_7)
  have m: "(0 :: ptr) \<in> set [0, 1, 2, 3, 4]" "(1 :: ptr) \<in> set [0, 1, 2, 3, 4]"
    "(2 :: ptr) \<in> set [0, 1, 2, 3, 4]" "(3 :: ptr) \<in> set [0, 1, 2, 3, 4]"
    "(4 :: ptr) \<in> set [0, 1, 2, 3, 4]" "(3 :: ptr) \<noteq> 4"
    by simp_all
  have h: "\<not> IsValid (LightingGuid (heapRun 0))" "\<not> ShouldModify (heapRun 0)"
    "\<not> IsValid (LightingGuid (heapRun 1))" "ShouldModify (heapRun 1)"
    "IsValid (LightingGuid (heapRun 2))" "\<not> ShouldModify (heapRun 2)"
    "IsValid (LightingGuid (heapRun 3))" "ShouldModify (heapRun 3)"
    "IsValid (LightingGuid (heapRun 4))" "ShouldModify (heapRun 4)"
    by (simp_all add: heapRun_def heap_of_def IsValid_def ShouldModify_def StartsWith_def)
  note locked = scans_run_to_completion [where gen = gen_example and heap = heapRun
      and enum = "[0, 1, 2, 3, 4]" and Broken = 0 and Sound = 3 and Owned = 3 and Other = 4
      and Locked = 2 and before = "[]" and rest = "[]" and Object = 0
      and s = "dedup_init heapRun" and u = "scan_init heapRun", unfolded Let_def]
  note broken = scans_run_to_completion [where gen = gen_example and heap = heapRun
      and enum = "[0, 1, 2, 3, 4]" and Broken = 1 and Sound = 3 and Owned = 3 and Other = 4
      and Locked = 2 and before = "[]" and rest = "[]" and Object = 0
      and s = "dedup_init heapRun" and u = "scan_init heapRun", unfolded Let_def]
  show ?thesis
    using d fM fT m h locked broken by blast
qed

end
